theory Spec2Isabelle
  imports Main
begin

section \<open>Python faults as values\<close>

text \<open>
  Every exception the two modules can raise is a value of \<open>error\<close>; a computation that
  may raise returns \<open>error + 'a\<close> with \<open>Inl\<close> for the fault.
  \<^item> \<open>AttributeError\<close>: reading an attribute that the object does not have (a name the
    module \<open>expr\<close> does not bind, or any field of \<open>None\<close>);
  \<^item> \<open>IndexError\<close>: \<open>pop()\<close> on an empty list, or a list index out of range;
  \<^item> \<open>KeyError\<close>: subscripting a dict by a key it does not hold;
  \<^item> \<open>TypeError\<close>: calling a non-callable or with the wrong number of arguments;
  \<^item> \<open>ValueError\<close>: \<open>float\<close> of a string that is no number.
\<close>

datatype error = AttributeError | IndexError | KeyError | TypeError | ValueError

definition ebind :: "error + 'a \<Rightarrow> ('a \<Rightarrow> error + 'b) \<Rightarrow> error + 'b" where
  "ebind m f = (case m of Inl e \<Rightarrow> Inl e | Inr x \<Rightarrow> f x)"

section \<open>Module expr: the lookup tables\<close>

text \<open>
  \<open>_Op\<close> is a named tuple of two Python integers; \<open>_RIGHT, _LEFT = 0, 1\<close>.
  \<open>_OPS\<close> is a dict, kept as an association list in the order of the source and read
  through \<open>map_of\<close>; subscripting by an absent key raises \<open>KeyError\<close>.
\<close>

record Op =
  precedence :: int
  associativity :: int

definition RIGHT :: int where "RIGHT = 0"
definition LEFT :: int where "LEFT = 1"

definition OPS :: "(string \<times> Op) list" where
  "OPS =
    [(''^'', \<lparr>precedence = 4, associativity = RIGHT\<rparr>),
     (''*'', \<lparr>precedence = 3, associativity = LEFT\<rparr>),
     (''/'', \<lparr>precedence = 3, associativity = LEFT\<rparr>),
     (''+'', \<lparr>precedence = 2, associativity = LEFT\<rparr>),
     (''-'', \<lparr>precedence = 2, associativity = LEFT\<rparr>)]"

definition OPS_get :: "string \<Rightarrow> error + Op" where
  "OPS_get k = (case map_of OPS k of None \<Rightarrow> Inl KeyError | Some v \<Rightarrow> Inr v)"

text \<open>The keys of \<open>basic_opeartors_mapper\<close> (the values, float arithmetic, are not embedded).\<close>

definition basic_opeartors_mapper_keys :: "string list" where
  "basic_opeartors_mapper_keys = [''+'', ''-'', ''*'', ''/'', ''^'']"

text \<open>The keys of \<open>function_mapper\<close>, in the insertion order a Python dict iterates in.\<close>

definition function_mapper_keys :: "string list" where
  "function_mapper_keys = [''max'', ''min'', ''sin'']"

section \<open>Module expr: tokens\<close>

record token =
  sym :: string
  is_num :: bool
  is_func :: bool
  is_dummy :: bool
  is_oper :: bool
  is_leftb :: bool
  is_rightb :: bool

text \<open>The constructor \<open>token(sym, ...)\<close>: every flag defaults to \<open>False\<close>.\<close>

definition token_init :: "string \<Rightarrow> token" where
  "token_init s =
     \<lparr>sym = s, is_num = False, is_func = False, is_dummy = False,
      is_oper = False, is_leftb = False, is_rightb = False\<rparr>"

section \<open>Module expr: has_precedence\<close>

text \<open>
  \<open>(_OPS[b].associativity == _RIGHT and _OPS[a].precedence > _OPS[b].precedence) or
   (_OPS[b].associativity == _LEFT and _OPS[a].precedence >= _OPS[b].precedence)\<close>,
  with Python's left-to-right, short-circuit evaluation of the subscripts.
\<close>

definition has_precedence :: "string \<Rightarrow> string \<Rightarrow> error + bool" where
  "has_precedence a b =
     ebind (OPS_get b) (\<lambda>ob.
     ebind (if associativity ob = RIGHT
            then ebind (OPS_get a) (\<lambda>oa.
                 ebind (OPS_get b) (\<lambda>ob'. Inr (precedence oa > precedence ob')))
            else Inr False) (\<lambda>c1.
     if c1 then Inr True
     else ebind (OPS_get b) (\<lambda>ob2.
          if associativity ob2 = LEFT
          then ebind (OPS_get a) (\<lambda>oa.
               ebind (OPS_get b) (\<lambda>ob3. Inr (precedence oa \<ge> precedence ob3)))
          else Inr False)))"

text \<open>
  The table as the specification words it, for comparison with the code's:
  \<open>^\<close> has precedence 4 and is right-associative, \<open>*\<close> and \<open>/\<close> have precedence 3,
  \<open>+\<close> and \<open>-\<close> precedence 2, and these four are left-associative.
\<close>

datatype spec_assoc = SpecLeft | SpecRight

definition spec_operators :: "string list" where
  "spec_operators = [''^'', ''*'', ''/'', ''+'', ''-'']"

definition spec_precedence :: "string \<Rightarrow> nat" where
  "spec_precedence s =
     (if s = ''^'' then 4 else if s = ''*'' \<or> s = ''/'' then 3 else 2)"

definition spec_associativity :: "string \<Rightarrow> spec_assoc" where
  "spec_associativity s = (if s = ''^'' then SpecRight else SpecLeft)"

definition spec_has_precedence :: "string \<Rightarrow> string \<Rightarrow> bool" where
  "spec_has_precedence a b \<longleftrightarrow>
     (spec_associativity b = SpecRight \<and> spec_precedence a > spec_precedence b) \<or>
     (spec_associativity b = SpecLeft \<and> spec_precedence a \<ge> spec_precedence b)"

section \<open>Module expr: character classes\<close>

text \<open>
  Strings are lists of 8-bit characters, so a character stands for the code point of the
  same number (Latin-1). \<open>is_symbol(s)\<close> is \<open>s in basic_opeartors_mapper\<close>, a test on the
  whole string. \<open>is_func\<close> has the body \<open>pass\<close>: it returns \<open>None\<close>, which every caller
  reads as a truth value, hence \<open>False\<close>. \<open>is_digit(s)\<close> is \<open>s in "1234567890"\<close>, applied
  by the tokenizer to one character at a time. \<open>is_letter(s)\<close> is \<open>s.isalpha()\<close>: the
  code points below 256 of a Unicode letter category are A-Z, a-z, 170, 181, 186,
  192-214, 216-246 and 248-255.
\<close>

definition is_symbol :: "string \<Rightarrow> bool" where
  "is_symbol s \<longleftrightarrow> s \<in> set basic_opeartors_mapper_keys"

definition is_func_str :: "string \<Rightarrow> bool" where
  "is_func_str s = False"

definition is_digit :: "char \<Rightarrow> bool" where
  "is_digit c \<longleftrightarrow> c \<in> set ''1234567890''"

definition is_letter :: "char \<Rightarrow> bool" where
  "is_letter c =
     (let n = (of_char c :: nat) in
      (65 \<le> n \<and> n \<le> 90) \<or> (97 \<le> n \<and> n \<le> 122) \<or> n = 170 \<or> n = 181 \<or> n = 186 \<or>
      (192 \<le> n \<and> n \<le> 214) \<or> (216 \<le> n \<and> n \<le> 246) \<or> (248 \<le> n \<and> n \<le> 255))"

section \<open>Module expr: the function-name regex\<close>

text \<open>
  \<open>_func_regex()\<close> builds the pattern \<open>(max|min|sin)\<close>: one alternative per key of
  \<open>function_mapper\<close>, in order (no key contains a parenthesis, so nothing is escaped).
  The pattern is kept as the list of its literal alternatives. \<open>_match_regex\<close> runs
  \<open>finditer\<close>: scanning from the left, at each position the first alternative that is a
  prefix of the rest of the string matches; the scan resumes behind a match, and one
  character further where nothing matches. It returns the start and the end indices.
\<close>

definition func_regex :: "string list" where
  "func_regex = function_mapper_keys"

fun match_at :: "string list \<Rightarrow> string \<Rightarrow> nat option" where
  "match_at [] s = None"
| "match_at (a # as) s = (if take (length a) s = a then Some (length a) else match_at as s)"

fun finditer :: "string list \<Rightarrow> nat \<Rightarrow> string \<Rightarrow> (nat \<times> nat) list" where
  "finditer r pos [] = []"
| "finditer r pos (c # cs) =
     (case match_at r (c # cs) of
        None \<Rightarrow> finditer r (pos + 1) cs
      | Some n \<Rightarrow>
          (if n = 0 then (pos, pos) # finditer r (pos + 1) cs
           else (pos, pos + n) # finditer r (pos + n) (drop (n - 1) cs)))"

definition match_regex :: "string list \<Rightarrow> string \<Rightarrow> nat list \<times> nat list" where
  "match_regex r e = (let ms = finditer r 0 e in (map fst ms, map snd ms))"

section \<open>Module expr: tokenize\<close>

text \<open>
  The slice \<open>e[i:j]\<close> for indices \<open>0 \<le> i\<close>, \<open>0 \<le> j\<close>: empty when \<open>j \<le> i\<close>, cut at the end
  of the string.
\<close>

definition slice :: "string \<Rightarrow> nat \<Rightarrow> nat \<Rightarrow> string" where
  "slice e i j = take (j - i) (drop i e)"

text \<open>
  The loop of \<open>tokenize\<close> over \<open>index\<close>, \<open>eindex\<close> and \<open>result\<close>. \<open>ends[eindex]\<close> raises
  \<open>IndexError\<close> out of range. Each inner loop collects the maximal run of digits
  (letters) from \<open>index\<close> on; \<open>index\<close> is then put one back and advanced by the common
  \<open>index += 1\<close>, so the next round starts behind the run. A character of no class adds
  no token. At a start of a match the token is the slice up to \<open>ends[eindex]\<close> and the
  loop resumes at \<open>ends[eindex]\<close>, whatever match \<open>eindex\<close> points to: after a run of
  letters has passed over a match, this is an earlier match, the slice is empty and the
  index goes back.
\<close>

function tokenize_loop ::
  "string \<Rightarrow> nat list \<Rightarrow> nat list \<Rightarrow> nat \<Rightarrow> nat \<Rightarrow> token list \<Rightarrow> error + token list" where
  "tokenize_loop e starts ends index eindex result =
     (if index < length e then
        if index \<in> set starts then
          (if eindex < length ends
           then tokenize_loop e starts ends (ends ! eindex) (eindex + 1)
                  (result @ [(token_init (slice e index (ends ! eindex)))\<lparr>is_func := True\<rparr>])
           else Inl IndexError)
        else
          (let t = e ! index in
           if is_digit t then
             (let d = takeWhile is_digit (drop index e) in
              tokenize_loop e starts ends (index + length d - 1 + 1) eindex
                (result @ [(token_init d)\<lparr>is_num := True\<rparr>]))
           else if is_letter t then
             (let d = takeWhile is_letter (drop index e) in
              tokenize_loop e starts ends (index + length d - 1 + 1) eindex
                (result @ [(token_init d)\<lparr>is_dummy := True\<rparr>]))
           else if t = CHR ''('' then
             tokenize_loop e starts ends (index + 1) eindex
               (result @ [(token_init [t])\<lparr>is_leftb := True\<rparr>])
           else if t = CHR '')'' then
             tokenize_loop e starts ends (index + 1) eindex
               (result @ [(token_init [t])\<lparr>is_rightb := True\<rparr>])
           else if is_symbol [t] then
             tokenize_loop e starts ends (index + 1) eindex
               (result @ [(token_init [t])\<lparr>is_oper := True\<rparr>])
           else tokenize_loop e starts ends (index + 1) eindex result)
      else Inr result)"
  by pat_completeness auto
termination
  by (relation "measures [\<lambda>(e, starts, ends, index, eindex, result). length ends - eindex,
                          \<lambda>(e, starts, ends, index, eindex, result). length e - index]")
     (auto simp add: Cons_nth_drop_Suc [symmetric])

declare tokenize_loop.simps [simp del]

definition tokenize :: "string \<Rightarrow> error + token list" where
  "tokenize e = (case match_regex func_regex e of (starts, ends) \<Rightarrow>
                   tokenize_loop e starts ends 0 0 [])"

section \<open>Module expr: postfix\<close>

text \<open>
  The operator stack \<open>op\<close> and the output \<open>q\<close> are Python lists: \<open>op[-1]\<close> is \<open>last\<close>,
  \<open>op.pop()\<close> removes and returns the last element (\<open>IndexError\<close> on an empty list),
  \<open>append\<close> adds at the end.

  The inner loop of the operator branch:
  \<open>while len(op) > 0 and op[-1] != "(" and has_precedence(op[-1], token.sym)\<close>.
\<close>

function pop_operators :: "string \<Rightarrow> string list \<Rightarrow> string list \<Rightarrow> error + string list \<times> string list" where
  "pop_operators s q op =
     (if length op > 0 \<and> last op \<noteq> ''(''
      then ebind (has_precedence (last op) s) (\<lambda>b.
             if b then pop_operators s (q @ [last op]) (butlast op) else Inr (q, op))
      else Inr (q, op))"
  by pat_completeness auto
termination
  by (relation "measure (\<lambda>(s, q, op). length op)") auto

declare pop_operators.simps [simp del]

text \<open>The inner loop of the right-bracket branch: \<open>while len(op) > 0 and op[-1] != "("\<close>.\<close>

function pop_to_bracket :: "string list \<Rightarrow> string list \<Rightarrow> string list \<times> string list" where
  "pop_to_bracket q op =
     (if length op > 0 \<and> last op \<noteq> ''(''
      then pop_to_bracket (q @ [last op]) (butlast op)
      else (q, op))"
  by pat_completeness auto
termination
  by (relation "measure (\<lambda>(q, op). length op)") auto

declare pop_to_bracket.simps [simp del]

text \<open>The final loop: \<open>while len(op) > 0: q.append(op.pop())\<close>.\<close>

function pop_all :: "string list \<Rightarrow> string list \<Rightarrow> string list" where
  "pop_all q op = (if length op > 0 then pop_all (q @ [last op]) (butlast op) else q)"
  by pat_completeness auto
termination
  by (relation "measure (\<lambda>(q, op). length op)") auto

declare pop_all.simps [simp del]

text \<open>
  One round of the main loop, for one token. The test on \<open>is_num\<close>/\<open>is_dummy\<close> is an
  \<open>if\<close> of its own; the bracket and operator tests form one \<open>if\<close>/\<open>elif\<close> chain after it.
  A token with none of these five flags (a function token) changes nothing.
\<close>

definition postfix_step :: "token \<Rightarrow> string list \<times> string list \<Rightarrow> error + string list \<times> string list" where
  "postfix_step tok s =
     (case s of (q, op) \<Rightarrow>
       (let q1 = (if is_num tok \<or> is_dummy tok then q @ [token.sym tok] else q) in
        if is_leftb tok then Inr (q1, op @ [token.sym tok])
        else if is_oper tok then
          (if length op > 0
           then ebind (pop_operators (token.sym tok) q1 op) (\<lambda>(q2, op2).
                  Inr (q2, op2 @ [token.sym tok]))
           else Inr (q1, op @ [token.sym tok]))
        else if is_rightb tok then
          (case pop_to_bracket q1 op of (q2, op2) \<Rightarrow>
             if op2 = [] then Inl IndexError else Inr (q2, butlast op2))
        else Inr (q1, op)))"

fun postfix_loop :: "token list \<Rightarrow> string list \<times> string list \<Rightarrow> error + string list \<times> string list" where
  "postfix_loop [] s = Inr s"
| "postfix_loop (tok # toks) s = ebind (postfix_step tok s) (postfix_loop toks)"

definition postfix_tokens :: "token list \<Rightarrow> error + string list" where
  "postfix_tokens toks = ebind (postfix_loop toks ([], [])) (\<lambda>(q, op). Inr (pop_all q op))"

definition postfix :: "string \<Rightarrow> error + string list" where
  "postfix e = ebind (tokenize e) postfix_tokens"

section \<open>Module ast: nodes and trees in a store\<close>

text \<open>
  Nodes are mutable objects that refer to each other through \<open>left\<close>, \<open>right\<close> and
  \<open>parent\<close>, and \<open>copy\<close> is about which objects are shared; so nodes live in a store.
  The store is a list of nodes, the address of a node is its index, \<open>None\<close> is the null
  reference, and a new object is appended at the end. A Python reference always points
  to a live object: every address in a store that the operations below build is below
  its length.
\<close>

type_synonym addr = nat

record node =
  sym :: string
  left :: "addr option"
  parent :: "addr option"
  right :: "addr option"

type_synonym heap = "node list"

text \<open>The constructor \<open>node(sym, parent=None, left=None, right=None)\<close>.\<close>

definition node_init :: "string \<Rightarrow> addr option \<Rightarrow> addr option \<Rightarrow> addr option \<Rightarrow> node" where
  "node_init s p l r = \<lparr>sym = s, left = l, parent = p, right = r\<rparr>"

text \<open>\<open>node.copy\<close>: \<open>node(self.sym, self.parent, self.left, self.right)\<close>.\<close>

definition node_copy :: "node \<Rightarrow> node" where
  "node_copy n = node_init (sym n) (parent n) (left n) (right n)"

record astree =
  root :: "addr option"
  cur :: "addr option"

text \<open>\<open>astree.__init__\<close>.\<close>

definition astree_init :: astree where
  "astree_init = \<lparr>root = None, cur = None\<rparr>"

section \<open>Module ast: names that module expr does not bind\<close>

text \<open>
  Module \<open>ast\<close> calls \<open>expr.is_unary\<close>, \<open>expr.is_number\<close> and \<open>expr.is_special_number\<close>
  and subscripts \<open>expr.special_number\<close> and \<open>expr.symbols\<close>. Module \<open>expr\<close> binds none
  of these five names: its top-level names are \<open>collections\<close>, \<open>re\<close>, \<open>_Op\<close>, \<open>_RIGHT\<close>,
  \<open>_LEFT\<close>, \<open>_OPS\<close>, \<open>basic_opeartors_mapper\<close>, \<open>function_mapper\<close>, \<open>token\<close>,
  \<open>has_precedence\<close>, \<open>postfix\<close>, \<open>is_symbol\<close>, \<open>is_func\<close>, \<open>is_digit\<close>, \<open>is_letter\<close>,
  \<open>tokenize\<close>, \<open>_func_regex\<close> and \<open>_match_regex\<close>. A binding of the module is an
  optional value, \<open>None\<close> when the module has no such name; evaluating the reference
  \<open>expr.x\<close> is \<open>attr\<close>, which raises \<open>AttributeError\<close> on an absent name, before any
  argument of a call is evaluated.
\<close>

definition attr :: "'a option \<Rightarrow> error + 'a" where
  "attr b = (case b of None \<Rightarrow> Inl AttributeError | Some v \<Rightarrow> Inr v)"

text \<open>
  The values of the evaluator: the Python integer \<open>0\<close> that it returns for a null node,
  and floats. Floating-point arithmetic is not embedded; a float is kept as what \<open>float\<close>
  read it from: \<open>PyFloat neg m e\<close> stands for the float nearest to \<open>m\<close> times ten to the
  power \<open>e\<close>, negated when \<open>neg\<close> holds (so two different values may stand for the same
  float), \<open>PyInf neg\<close> for an infinity and \<open>PyNaN\<close> for a NaN.
\<close>

datatype pyval = PyInt int | PyFloat bool nat int | PyInf bool | PyNaN

definition expr_is_unary :: "(string \<Rightarrow> bool) option" where
  "expr_is_unary = None"

definition expr_is_number :: "(string \<Rightarrow> bool) option" where
  "expr_is_number = None"

definition expr_is_special_number :: "(string \<Rightarrow> bool) option" where
  "expr_is_special_number = None"

definition expr_special_number :: "(string \<Rightarrow> pyval option) option" where
  "expr_special_number = None"

definition expr_symbols :: "(string \<Rightarrow> (pyval \<Rightarrow> pyval \<Rightarrow> error + pyval) option) option" where
  "expr_symbols = None"

text \<open>Subscripting a dict: \<open>KeyError\<close> on an absent key.\<close>

definition dict_get :: "('k \<Rightarrow> 'v option) \<Rightarrow> 'k \<Rightarrow> error + 'v" where
  "dict_get d k = (case d k of None \<Rightarrow> Inl KeyError | Some v \<Rightarrow> Inr v)"

text \<open>
  \<open>function_mapper\<close> binds \<open>max\<close> and \<open>min\<close> to functions of two arguments and \<open>sin\<close> to
  \<open>None\<close>. The evaluator calls the entry with one argument, which raises \<open>TypeError\<close> for
  each of the three.
\<close>

datatype pyfun = Lambda2 | PyNone

definition function_mapper :: "(string \<times> pyfun) list" where
  "function_mapper = [(''max'', Lambda2), (''min'', Lambda2), (''sin'', PyNone)]"

definition call1 :: "pyfun \<Rightarrow> pyval \<Rightarrow> error + pyval" where
  "call1 f x = Inl TypeError"

text \<open>
  The builtin \<open>float\<close> on a string, for code points below 256. Blanks at both ends are
  dropped (the code points 9 to 13, 32, 133 and 160). An underscore must stand between
  two digits and is removed. What is left is an optional sign followed by a decimal
  numeral (digits with an optional point, at least one digit, and an optional exponent
  \<open>e\<close> or \<open>E\<close> with an optional sign and at least one digit), or by \<open>inf\<close>, \<open>infinity\<close> or
  \<open>nan\<close> in any case of the letters; anything else raises \<open>ValueError\<close>.
\<close>

definition float_space :: "char \<Rightarrow> bool" where
  "float_space c =
     (let n = (of_char c :: nat) in (9 \<le> n \<and> n \<le> 13) \<or> n = 32 \<or> n = 133 \<or> n = 160)"

definition float_strip :: "string \<Rightarrow> string" where
  "float_strip s = rev (dropWhile float_space (rev (dropWhile float_space s)))"

definition ascii_digit :: "char \<Rightarrow> bool" where
  "ascii_digit c \<longleftrightarrow> c \<in> set ''0123456789''"

text \<open>The underscores are checked against the character before (\<open>prev\<close>) and the one after.\<close>

fun drop_underscores :: "char \<Rightarrow> string \<Rightarrow> string option" where
  "drop_underscores prev [] = (if prev = CHR ''_'' then None else Some [])"
| "drop_underscores prev (c # cs) =
     (if c = CHR ''_'' then
        (if ascii_digit prev then drop_underscores c cs else None)
      else if prev = CHR ''_'' \<and> \<not> ascii_digit c then None
      else map_option ((#) c) (drop_underscores c cs))"

definition split_sign :: "string \<Rightarrow> bool \<times> string" where
  "split_sign s =
     (case s of
        [] \<Rightarrow> (False, [])
      | c # cs \<Rightarrow>
          if c = CHR ''-'' then (True, cs) else if c = CHR ''+'' then (False, cs) else (False, s))"

fun digits_value :: "string \<Rightarrow> nat \<Rightarrow> nat" where
  "digits_value [] acc = acc"
| "digits_value (c # cs) acc = digits_value cs (10 * acc + (of_char c - 48))"

text \<open>The decimal numeral: its digits as a number, and its power of ten.\<close>

definition parse_decimal :: "string \<Rightarrow> (nat \<times> int) option" where
  "parse_decimal s =
     (let d1 = takeWhile ascii_digit s;
          r1 = dropWhile ascii_digit s;
          point = (r1 \<noteq> [] \<and> hd r1 = CHR ''.'');
          d2 = (if point then takeWhile ascii_digit (tl r1) else []);
          r2 = (if point then dropWhile ascii_digit (tl r1) else r1);
          m = digits_value (d1 @ d2) 0
      in if d1 = [] \<and> d2 = [] then None
         else if r2 = [] then Some (m, - int (length d2))
         else if hd r2 = CHR ''e'' \<or> hd r2 = CHR ''E'' then
           (case split_sign (tl r2) of
              (eneg, d3) \<Rightarrow>
                if d3 \<noteq> [] \<and> list_all ascii_digit d3
                then Some (m, (if eneg then - int (digits_value d3 0) else int (digits_value d3 0))
                              - int (length d2))
                else None)
         else None)"

definition ascii_lower :: "char \<Rightarrow> char" where
  "ascii_lower c =
     (let n = (of_char c :: nat) in if 65 \<le> n \<and> n \<le> 90 then char_of (n + 32) else c)"

definition py_float :: "string \<Rightarrow> error + pyval" where
  "py_float s =
     (case drop_underscores (CHR 0x00) (float_strip s) of
        None \<Rightarrow> Inl ValueError
      | Some s' \<Rightarrow>
          (case split_sign s' of
             (neg, body) \<Rightarrow>
               (case parse_decimal body of
                  Some (m, e) \<Rightarrow> Inr (PyFloat neg m e)
                | None \<Rightarrow>
                    (let l = map ascii_lower body in
                     if l = ''inf'' \<or> l = ''infinity'' then Inr (PyInf neg)
                     else if l = ''nan'' then Inr PyNaN
                     else Inl ValueError))))"

section \<open>Module ast: astree.add\<close>

definition set_left :: "heap \<Rightarrow> addr \<Rightarrow> addr option \<Rightarrow> heap" where
  "set_left h a v = h[a := (h ! a)\<lparr>left := v\<rparr>]"

definition set_right :: "heap \<Rightarrow> addr \<Rightarrow> addr option \<Rightarrow> heap" where
  "set_right h a v = h[a := (h ! a)\<lparr>right := v\<rparr>]"

text \<open>
  The loop \<open>while self.cur.left is not None or expr.is_unary(self.cur.sym):
  self.cur = self.cur.parent\<close>, from the cursor \<open>c\<close>; it returns the cursor it stops at.
  Reading \<open>left\<close> of the null cursor raises \<open>AttributeError\<close>. Parent references may form
  a cycle in an arbitrary store, so the loop is a partial function: \<open>None\<close> is
  "does not return".
\<close>

partial_function (option) walk_up :: "heap \<Rightarrow> addr option \<Rightarrow> (error + addr) option" where
  "walk_up h c =
     (case c of
        None \<Rightarrow> Some (Inl AttributeError)
      | Some a \<Rightarrow>
          if left (h ! a) \<noteq> None then walk_up h (parent (h ! a))
          else (case attr expr_is_unary of
                  Inl e \<Rightarrow> Some (Inl e)
                | Inr is_unary \<Rightarrow>
                    if is_unary (sym (h ! a)) then walk_up h (parent (h ! a))
                    else Some (Inr a)))"

declare walk_up.simps [code]

text \<open>
  The test \<open>self.cur.left is None and not expr.is_unary(self.cur.sym)\<close> of both \<open>elif\<close>s,
  with its short-circuit: \<open>expr.is_unary\<close> is evaluated only when the left child is null.
\<close>

definition left_is_free :: "heap \<Rightarrow> addr \<Rightarrow> error + bool" where
  "left_is_free h c =
     (if left (h ! c) = None
      then ebind (attr expr_is_unary) (\<lambda>is_unary. Inr (\<not> is_unary (sym (h ! c))))
      else Inr False)"

text \<open>
  \<open>add\<close> on the store \<open>h\<close> and the tree \<open>t\<close>. Where the root is set, \<open>self.cur.right\<close> on a
  null cursor raises \<open>AttributeError\<close>. The new node gets the address \<open>length h\<close>.
\<close>

definition add :: "heap \<times> astree \<Rightarrow> string \<Rightarrow> (error + heap \<times> astree) option" where
  "add s v =
     (case s of (h, t) \<Rightarrow>
      let new = length h in
      if root t = None then
        Some (Inr (h @ [node_init v None None None], t\<lparr>root := Some new, cur := Some new\<rparr>))
      else
        (case cur t of
           None \<Rightarrow> Some (Inl AttributeError)
         | Some c \<Rightarrow>
             if is_symbol v \<or> is_func_str v then
               (if right (h ! c) = None then
                  Some (Inr (set_right (h @ [node_init v (Some c) None None]) c (Some new),
                             t\<lparr>cur := Some new\<rparr>))
                else
                  (case left_is_free h c of
                     Inl e \<Rightarrow> Some (Inl e)
                   | Inr True \<Rightarrow>
                       Some (Inr (set_left (h @ [node_init v (Some c) None None]) c (Some new),
                                  t\<lparr>cur := Some new\<rparr>))
                   | Inr False \<Rightarrow>
                       Option.bind (walk_up h (Some c)) (\<lambda>w.
                         case w of
                           Inl e \<Rightarrow> Some (Inl e)
                         | Inr c' \<Rightarrow>
                             Some (Inr (set_left (h @ [node_init v (Some c') None None]) c' (Some new),
                                        t\<lparr>cur := Some new\<rparr>)))))
             else
               (if right (h ! c) = None then
                  Some (Inr (set_right (h @ [node_init v (Some c) None None]) c (Some new), t))
                else
                  (case left_is_free h c of
                     Inl e \<Rightarrow> Some (Inl e)
                   | Inr True \<Rightarrow>
                       Some (Inr (set_left (h @ [node_init v (Some c) None None]) c (Some new), t))
                   | Inr False \<Rightarrow>
                       Option.bind (walk_up h (Some c)) (\<lambda>w.
                         case w of
                           Inl e \<Rightarrow> Some (Inl e)
                         | Inr c' \<Rightarrow>
                             Some (Inr (set_left (h @ [node_init v (Some c') None None]) c' (Some new),
                                        t\<lparr>cur := Some c'\<rparr>)))))))"

section \<open>Module ast: build\<close>

text \<open>The loop \<open>while len(p) > 0: ast.add(p.pop())\<close>: the postfix list is consumed from its end.\<close>

function build_loop :: "string list \<Rightarrow> heap \<times> astree \<Rightarrow> (error + heap \<times> astree) option" where
  "build_loop p s =
     (if length p > 0 then
        (case add s (last p) of
           None \<Rightarrow> None
         | Some (Inl e) \<Rightarrow> Some (Inl e)
         | Some (Inr s') \<Rightarrow> build_loop (butlast p) s')
      else Some (Inr s))"
  by pat_completeness auto
termination
  by (relation "measure (\<lambda>(p, s). length p)") auto

declare build_loop.simps [simp del]

text \<open>
  \<open>build(e)\<close>: blanks are removed, the expression is converted to postfix, and the symbols
  are added to a new tree. The store of the result holds the nodes of this tree only.
\<close>

definition build :: "string \<Rightarrow> (error + heap \<times> astree) option" where
  "build e =
     (case postfix (filter (\<lambda>c. c \<noteq> CHR '' '') e) of
        Inl err \<Rightarrow> Some (Inl err)
      | Inr p \<Rightarrow> build_loop p ([], astree_init))"

section \<open>Module ast: traversals, copy and evaluate\<close>

text \<open>
  \<open>bfs\<close>: the queue holds references, the root is put in whether it is null or not, and
  \<open>node.sym\<close> on the null reference raises \<open>AttributeError\<close>. The loop need not end on a
  store with a cycle.
\<close>

partial_function (option) bfs_loop ::
  "heap \<Rightarrow> addr option list \<Rightarrow> string list \<Rightarrow> (error + string list) option" where
  "bfs_loop h q s =
     (if length q > 0 then
        (case hd q of
           None \<Rightarrow> Some (Inl AttributeError)
         | Some a \<Rightarrow>
             bfs_loop h
               (tl q @ (if left (h ! a) \<noteq> None then [left (h ! a)] else [])
                     @ (if right (h ! a) \<noteq> None then [right (h ! a)] else []))
               (s @ [sym (h ! a)]))
      else Some (Inr s))"

declare bfs_loop.simps [code]

definition bfs :: "heap \<times> astree \<Rightarrow> (error + string list) option" where
  "bfs s = (case s of (h, t) \<Rightarrow> bfs_loop h [root t] [])"

text \<open>\<open>postorder\<close>: the inner function \<open>travel\<close> appends to the list \<open>li\<close> (printing is left out).\<close>

partial_function (option) postorder_travel ::
  "heap \<Rightarrow> addr option \<Rightarrow> string list \<Rightarrow> string list option" where
  "postorder_travel h n li =
     (case n of
        None \<Rightarrow> Some li
      | Some a \<Rightarrow>
          Option.bind (postorder_travel h (left (h ! a)) li) (\<lambda>li1.
          Option.bind (postorder_travel h (right (h ! a)) li1) (\<lambda>li2.
          Some (li2 @ [sym (h ! a)]))))"

declare postorder_travel.simps [code]

definition postorder :: "heap \<times> astree \<Rightarrow> string list option" where
  "postorder s = (case s of (h, t) \<Rightarrow> postorder_travel h (root t) [])"

text \<open>
  \<open>_clone(n)\<close>: the copy of \<open>n\<close> is a new object with the four fields of \<open>n\<close>; its \<open>left\<close>
  and \<open>right\<close> are then overwritten with the clones of the children of \<open>n\<close>. Its \<open>parent\<close>
  is not assigned again.
\<close>

partial_function (option) clone :: "heap \<Rightarrow> addr option \<Rightarrow> (heap \<times> addr option) option" where
  "clone h n =
     (case n of
        None \<Rightarrow> Some (h, None)
      | Some a \<Rightarrow>
          (let new = length h; h1 = h @ [node_copy (h ! a)] in
           Option.bind (clone h1 (left (h1 ! a))) (\<lambda>(h2, l).
           let h3 = set_left h2 new l in
           Option.bind (clone h3 (right (h3 ! a))) (\<lambda>(h4, r).
           Some (set_right h4 new r, Some new)))))"

declare clone.simps [code]

text \<open>\<open>astree.copy\<close>: a new tree, whose cursor stays null, with the clone as root.\<close>

definition copy :: "heap \<times> astree \<Rightarrow> (heap \<times> astree) option" where
  "copy s = (case s of (h, t) \<Rightarrow>
     Option.bind (clone h (root t)) (\<lambda>(h', r). Some (h', astree_init\<lparr>root := r\<rparr>)))"

text \<open>
  \<open>evaluate(node)\<close>. In \<open>expr.function_mapper[node.sym](evaluate(node.right))\<close> the entry
  is looked up before the argument is evaluated.
\<close>

partial_function (option) evaluate :: "heap \<Rightarrow> addr option \<Rightarrow> (error + pyval) option" where
  "evaluate h n =
     (case n of
        None \<Rightarrow> Some (Inr (PyInt 0))
      | Some a \<Rightarrow>
          (case attr expr_is_unary of
             Inl e \<Rightarrow> Some (Inl e)
           | Inr is_unary \<Rightarrow>
               if is_unary (sym (h ! a)) then
                 (case dict_get (map_of function_mapper) (sym (h ! a)) of
                    Inl e \<Rightarrow> Some (Inl e)
                  | Inr f \<Rightarrow>
                      Option.bind (evaluate h (right (h ! a))) (\<lambda>r.
                        case r of Inl e \<Rightarrow> Some (Inl e) | Inr x \<Rightarrow> Some (call1 f x)))
               else
                 (case attr expr_is_number of
                    Inl e \<Rightarrow> Some (Inl e)
                  | Inr is_number \<Rightarrow>
                      if is_number (sym (h ! a)) then Some (py_float (sym (h ! a)))
                      else
                        (case attr expr_is_special_number of
                           Inl e \<Rightarrow> Some (Inl e)
                         | Inr is_special_number \<Rightarrow>
                             if is_special_number (sym (h ! a)) then
                               Some (ebind (attr expr_special_number) (\<lambda>d. dict_get d (sym (h ! a))))
                             else
                               Option.bind (evaluate h (left (h ! a))) (\<lambda>l.
                                 case l of
                                   Inl e \<Rightarrow> Some (Inl e)
                                 | Inr x \<Rightarrow>
                                     Option.bind (evaluate h (right (h ! a))) (\<lambda>r.
                                       case r of
                                         Inl e \<Rightarrow> Some (Inl e)
                                       | Inr y \<Rightarrow>
                                           Some (ebind (attr expr_symbols) (\<lambda>d.
                                                 ebind (dict_get d (sym (h ! a))) (\<lambda>f. f x y)))))))))"

declare evaluate.simps [code]

text \<open>\<open>astree.evaluate\<close>.\<close>

definition astree_evaluate :: "heap \<times> astree \<Rightarrow> (error + pyval) option" where
  "astree_evaluate s = (case s of (h, t) \<Rightarrow> evaluate h (root t))"

text \<open>\<open>build(e).evaluate()\<close>: a fault of \<open>build\<close> is the fault of the whole expression.\<close>

definition build_evaluate :: "string \<Rightarrow> (error + pyval) option" where
  "build_evaluate e =
     Option.bind (build e) (\<lambda>b. case b of Inl err \<Rightarrow> Some (Inl err) | Inr s \<Rightarrow> astree_evaluate s)"

text \<open>\<open>build(e).postorder()\<close>, likewise.\<close>

definition build_postorder :: "string \<Rightarrow> (error + string list) option" where
  "build_postorder e =
     Option.bind (build e) (\<lambda>b. case b of Inl err \<Rightarrow> Some (Inl err)
                                 | Inr s \<Rightarrow> map_option Inr (postorder s))"

section \<open>Invariants of a tree under construction\<close>

text \<open>
  Predicates on a store and a tree for the proofs about \<open>add\<close>: the cursor is a live node
  (and is set exactly when the root is), the cursor has no right child yet, and no node
  has a left child.
\<close>

definition cur_live :: "heap \<times> astree \<Rightarrow> bool" where
  "cur_live s = (case s of (h, t) \<Rightarrow>
     (case cur t of None \<Rightarrow> root t = None | Some c \<Rightarrow> c < length h \<and> root t \<noteq> None))"

definition open_state :: "heap \<times> astree \<Rightarrow> bool" where
  "open_state s = (case s of (h, t) \<Rightarrow>
     root t \<noteq> None \<and> (case cur t of None \<Rightarrow> False | Some c \<Rightarrow> c < length h \<and> right (h ! c) = None))"

definition spine_state :: "heap \<times> astree \<Rightarrow> bool" where
  "spine_state s \<longleftrightarrow> cur_live s \<and> list_all (\<lambda>n. left n = None) (fst s)"

text \<open>
  The shape of every tree that the construction loop returns: node \<open>i\<close> has no left child
  and the node \<open>i + 1\<close>, if there is one, as its right child; the root is node 0 and the
  cursor is the last node or the one before it.
\<close>

definition right_spine :: "heap \<Rightarrow> bool" where
  "right_spine h \<longleftrightarrow>
     list_all (\<lambda>i. left (h ! i) = None \<and>
                    right (h ! i) = (if Suc i < length h then Some (Suc i) else None))
       [0 ..< length h]"

definition spine_tree :: "heap \<times> astree \<Rightarrow> bool" where
  "spine_tree s = (case s of (h, t) \<Rightarrow>
     right_spine h \<and>
     (if h = [] then root t = None \<and> cur t = None
      else root t = Some 0 \<and> (cur t = Some (length h - 1) \<or> cur t = Some (length h - 2))))"

section \<open>Kinds of tokens\<close>

text \<open>A function token as the tokenizer makes it: \<open>token(name, is_func=True)\<close>.\<close>

definition is_function_token :: "token \<Rightarrow> bool" where
  "is_function_token t \<longleftrightarrow> t = (token_init (token.sym t))\<lparr>is_func := True\<rparr>"

text \<open>
  The tokens that \<open>tokenize\<close> makes: exactly one flag is set, a bracket token holds its
  bracket, and an operator token holds a key of \<open>basic_opeartors_mapper\<close>.
\<close>

definition tokenizer_token :: "token \<Rightarrow> bool" where
  "tokenizer_token t \<longleftrightarrow>
     t = (token_init (token.sym t))\<lparr>is_func := True\<rparr> \<or>
     t = (token_init (token.sym t))\<lparr>is_num := True\<rparr> \<or>
     t = (token_init (token.sym t))\<lparr>is_dummy := True\<rparr> \<or>
     t = (token_init ''('')\<lparr>is_leftb := True\<rparr> \<or>
     t = (token_init '')'')\<lparr>is_rightb := True\<rparr> \<or>
     (is_symbol (token.sym t) \<and> t = (token_init (token.sym t))\<lparr>is_oper := True\<rparr>)"

text \<open>
  \<open>unmatched_close d toks\<close>: reading \<open>toks\<close> with \<open>d\<close> brackets open, some closing bracket
  comes while none is open. The tests are those of the converter, in its order.
\<close>

fun unmatched_close :: "nat \<Rightarrow> token list \<Rightarrow> bool" where
  "unmatched_close d [] = False"
| "unmatched_close d (t # ts) =
     (if is_leftb t then unmatched_close (d + 1) ts
      else if is_oper t then unmatched_close d ts
      else if is_rightb t then (d = 0 \<or> unmatched_close (d - 1) ts)
      else unmatched_close d ts)"

text \<open>
  The operator stack holds opening brackets and operator symbols; its depth is the number
  of opening brackets on it.
\<close>

definition ops_stack :: "string list \<Rightarrow> bool" where
  "ops_stack op = list_all (\<lambda>s. s = ''('' \<or> is_symbol s) op"

definition depth :: "string list \<Rightarrow> nat" where
  "depth op = length (filter (\<lambda>s. s = ''('') op)"

text \<open>
  The matches of \<open>finditer\<close> from position \<open>p\<close> on: each is non-empty and starts at or behind
  the end of the one before. \<open>cursor_ok\<close> relates the two loop variables of the tokenizer:
  the matches before \<open>eindex\<close> end at or before \<open>index\<close>.
\<close>

fun chain :: "nat \<Rightarrow> (nat \<times> nat) list \<Rightarrow> bool" where
  "chain p [] = True"
| "chain p (m # ms) = (p \<le> fst m \<and> fst m < snd m \<and> chain (snd m) ms)"

definition cursor_ok :: "nat list \<Rightarrow> nat \<Rightarrow> nat \<Rightarrow> bool" where
  "cursor_ok ends index eindex \<longleftrightarrow>
     eindex \<le> length ends \<and> (eindex = 0 \<or> ends ! (eindex - 1) \<le> index)"

section \<open>Properties of has_precedence\<close>

lemma OPS_get_simps:
  "OPS_get ''^'' = Inr \<lparr>precedence = 4, associativity = RIGHT\<rparr>"
  "OPS_get ''*'' = Inr \<lparr>precedence = 3, associativity = LEFT\<rparr>"
  "OPS_get ''/'' = Inr \<lparr>precedence = 3, associativity = LEFT\<rparr>"
  "OPS_get ''+'' = Inr \<lparr>precedence = 2, associativity = LEFT\<rparr>"
  "OPS_get ''-'' = Inr \<lparr>precedence = 2, associativity = LEFT\<rparr>"
  by (simp_all add: OPS_get_def OPS_def)

lemma hp_left:
  "OPS_get a = Inr oa \<Longrightarrow> OPS_get b = Inr ob \<Longrightarrow> associativity ob = LEFT \<Longrightarrow>
   has_precedence a b = Inr (precedence oa \<ge> precedence ob)"
  by (simp add: has_precedence_def ebind_def RIGHT_def LEFT_def)

lemma hp_right:
  "OPS_get a = Inr oa \<Longrightarrow> OPS_get b = Inr ob \<Longrightarrow> associativity ob = RIGHT \<Longrightarrow>
   has_precedence a b = Inr (precedence oa > precedence ob)"
  by (simp add: has_precedence_def ebind_def RIGHT_def LEFT_def)

lemma spec_operators_cases:
  "a \<in> set spec_operators \<Longrightarrow> a = ''^'' \<or> a = ''*'' \<or> a = ''/'' \<or> a = ''+'' \<or> a = ''-''"
  by (simp add: spec_operators_def)

lemma OPS_get_spec:
  assumes "a \<in> set spec_operators"
  shows "OPS_get a = Inr \<lparr>precedence = int (spec_precedence a),
           associativity = (if spec_associativity a = SpecRight then RIGHT else LEFT)\<rparr>"
  using spec_operators_cases [OF assms]
  by (elim disjE) (simp_all add: OPS_get_simps spec_precedence_def spec_associativity_def)

lemma has_precedence_values:
  assumes a: "a \<in> set spec_operators" and b: "b \<in> set spec_operators"
  shows "has_precedence a b = Inr (spec_has_precedence a b)"
proof (cases "spec_associativity b")
  case SpecLeft
  then show ?thesis
    using hp_left [OF OPS_get_spec [OF a] OPS_get_spec [OF b]]
    by (simp add: spec_has_precedence_def)
next
  case SpecRight
  then show ?thesis
    using hp_right [OF OPS_get_spec [OF a] OPS_get_spec [OF b]]
    by (simp add: spec_has_precedence_def)
qed

text \<open>
  Claim C5. For all operator symbols \<open>a\<close> and \<open>b\<close> among \<open>^ * / + -\<close>,
  \<open>has_precedence(a, b)\<close> returns (without a fault) the truth value of
  "\<open>b\<close> is right-associative and precedence(a) > precedence(b), or \<open>b\<close> is
  left-associative and precedence(a) \<ge> precedence(b)" under the table
  \<open>^\<close> (4, Right), \<open>*\<close> (3, Left), \<open>/\<close> (3, Left), \<open>+\<close> (2, Left), \<open>-\<close> (2, Left);
  \<open>has_precedence(op, op)\<close> is \<open>False\<close> for \<open>^\<close> and \<open>True\<close> for \<open>*\<close>, \<open>/\<close>, \<open>+\<close>, \<open>-\<close>.
\<close>

theorem has_precedence_spec:
  "(\<forall>a \<in> set spec_operators. \<forall>b \<in> set spec_operators.
      has_precedence a b =
        Inr ((spec_associativity b = SpecRight \<and> spec_precedence a > spec_precedence b) \<or>
             (spec_associativity b = SpecLeft \<and> spec_precedence a \<ge> spec_precedence b)))
   \<and> has_precedence ''^'' ''^'' = Inr False
   \<and> has_precedence ''*'' ''*'' = Inr True
   \<and> has_precedence ''/'' ''/'' = Inr True
   \<and> has_precedence ''+'' ''+'' = Inr True
   \<and> has_precedence ''-'' ''-'' = Inr True"
proof -
  have general: "\<forall>a \<in> set spec_operators. \<forall>b \<in> set spec_operators.
      has_precedence a b =
        Inr ((spec_associativity b = SpecRight \<and> spec_precedence a > spec_precedence b) \<or>
             (spec_associativity b = SpecLeft \<and> spec_precedence a \<ge> spec_precedence b))"
    using has_precedence_values by (simp add: spec_has_precedence_def)
  have s1: "has_precedence ''^'' ''^'' = Inr False"
    using hp_right [OF OPS_get_simps(1) OPS_get_simps(1)] by simp
  have s2: "has_precedence ''*'' ''*'' = Inr True"
    using hp_left [OF OPS_get_simps(2) OPS_get_simps(2)] by simp
  have s3: "has_precedence ''/'' ''/'' = Inr True"
    using hp_left [OF OPS_get_simps(3) OPS_get_simps(3)] by simp
  have s4: "has_precedence ''+'' ''+'' = Inr True"
    using hp_left [OF OPS_get_simps(4) OPS_get_simps(4)] by simp
  have s5: "has_precedence ''-'' ''-'' = Inr True"
    using hp_left [OF OPS_get_simps(5) OPS_get_simps(5)] by simp
  show ?thesis
    by (intro conjI general s1 s2 s3 s4 s5)
qed

theorem has_precedence_spec_witness:
  "''+'' \<in> set spec_operators \<and> ''*'' \<in> set spec_operators
   \<and> has_precedence ''*'' ''+'' = Inr True \<and> has_precedence ''+'' ''*'' = Inr False"
proof -
  have p: "''+'' \<in> set spec_operators" and t: "''*'' \<in> set spec_operators"
    by (simp_all add: spec_operators_def)
  note g = has_precedence_spec [THEN conjunct1, rule_format]
  show ?thesis
    using p t g [OF t p] g [OF p t]
    by (simp add: spec_associativity_def spec_precedence_def)
qed
section \<open>Faults of the tree operations\<close>

lemma attr_expr_is_unary: "attr expr_is_unary = Inl AttributeError"
  by (simp add: attr_def expr_is_unary_def)

lemma evaluate_null: "evaluate h None = Some (Inr (PyInt 0))"
  by (subst evaluate.simps) simp

lemma evaluate_node: "evaluate h (Some a) = Some (Inl AttributeError)"
  by (subst evaluate.simps) (simp add: attr_expr_is_unary)

text \<open>
  Claim C10. \<open>bfs()\<close> on a tree whose root is null (a freshly constructed tree) raises
  \<open>AttributeError\<close> instead of returning an empty list: the null root is put into the
  queue, and its \<open>sym\<close> is read.
\<close>

theorem bfs_null_root: "root t = None \<Longrightarrow> bfs (h, t) = Some (Inl AttributeError)"
  by (simp add: bfs_def) (subst bfs_loop.simps, simp)

theorem bfs_null_root_witness:
  "root astree_init = None \<and> bfs ([], astree_init) = Some (Inl AttributeError)"
proof -
  have r: "root astree_init = None" by (simp add: astree_init_def)
  from r bfs_null_root [OF r, of "[]"] show ?thesis by simp
qed

text \<open>
  Claim C8, at the failing inputs. The claim: the evaluator returns 0 for a null node,
  the parsed float for a numeric literal and the constant for \<open>pi\<close>. The code returns 0
  for the null node (\<open>evaluate_null\<close>), but on a node holding \<open>3\<close>, and on the trees built
  from \<open>3\<close> and from \<open>pi\<close>, it raises \<open>AttributeError\<close>: the first test on a node that is
  not null calls \<open>expr.is_unary\<close>, which module \<open>expr\<close> does not bind.
\<close>

theorem evaluate_literal_faults:
  "evaluate [node_init ''3'' None None None] (Some 0) = Some (Inl AttributeError)
   \<and> build_evaluate ''3'' = Some (Inl AttributeError)
   \<and> build_evaluate ''pi'' = Some (Inl AttributeError)"
  by code_simp

text \<open>
  Claim C1, at the failing inputs. The claim: evaluating the tree built from an
  expression gives its value, 11.0 for \<open>3+4*2\<close>, 14.0 for \<open>(3+4)*2\<close>, 512.0 for \<open>2^3^2\<close>
  and 1.0 for \<open>10/2/5\<close>. In the code \<open>build\<close> raises \<open>AttributeError\<close> on each of the four,
  when \<open>add\<close> reaches \<open>expr.is_unary\<close>; no tree is returned and nothing is evaluated.
\<close>

theorem build_examples_fault:
  "build_evaluate ''3+4*2'' = Some (Inl AttributeError)
   \<and> build_evaluate ''(3+4)*2'' = Some (Inl AttributeError)
   \<and> build_evaluate ''2^3^2'' = Some (Inl AttributeError)
   \<and> build_evaluate ''10/2/5'' = Some (Inl AttributeError)"
  by code_simp

text \<open>
  Claim C6, at the failing input. The claim: \<open>postorder()\<close> of the tree built from \<open>e\<close> is
  the postfix list of \<open>e\<close>. For \<open>2*3\<close> the postfix list is \<open>2 3 *\<close>, but \<open>build\<close> raises
  \<open>AttributeError\<close> and returns no tree to traverse.
\<close>

theorem postorder_roundtrip_fault:
  "postfix ''2*3'' = Inr [''2'', ''3'', ''*'']
   \<and> build ''2*3'' = Some (Inl AttributeError)
   \<and> build_postorder ''2*3'' = Some (Inl AttributeError)"
  by code_simp

text \<open>
  Claim C7, at the failing input. The claim: the nodes of \<open>t.copy()\<close> are new objects and
  the clone shares no node with \<open>t\<close>, also through parent references. The tree built from
  \<open>-1\<close> has the root \<open>-\<close> at address 0 and its right child \<open>1\<close> at address 1. Its copy has
  the new root at address 2 and the new child at address 3, and the \<open>parent\<close> of the new
  child is address 0, the root of the source tree: \<open>_clone\<close> never assigns \<open>parent\<close>.
\<close>

theorem copy_shares_parent:
  "build ''-1'' =
     Some (Inr ([\<lparr>sym = ''-'', left = None, parent = None, right = Some 1\<rparr>,
                 \<lparr>sym = ''1'', left = None, parent = Some 0, right = None\<rparr>],
                \<lparr>root = Some 0, cur = Some 0\<rparr>))
   \<and> copy ([\<lparr>sym = ''-'', left = None, parent = None, right = Some 1\<rparr>,
            \<lparr>sym = ''1'', left = None, parent = Some 0, right = None\<rparr>],
           \<lparr>root = Some 0, cur = Some 0\<rparr>) =
     Some ([\<lparr>sym = ''-'', left = None, parent = None, right = Some 1\<rparr>,
            \<lparr>sym = ''1'', left = None, parent = Some 0, right = None\<rparr>,
            \<lparr>sym = ''-'', left = None, parent = None, right = Some 3\<rparr>,
            \<lparr>sym = ''1'', left = None, parent = Some 0, right = None\<rparr>],
           \<lparr>root = Some 2, cur = None\<rparr>)
   \<and> parent ([\<lparr>sym = ''-'', left = None, parent = None, right = Some 1\<rparr>,
               \<lparr>sym = ''1'', left = None, parent = Some 0, right = None\<rparr>,
               \<lparr>sym = ''-'', left = None, parent = None, right = Some 3\<rparr>,
               \<lparr>sym = ''1'', left = None, parent = Some 0, right = None\<rparr>] ! 3) =
       root \<lparr>root = Some 0, cur = Some 0\<rparr>"
  by code_simp
section \<open>The construction loop\<close>

lemma left_is_free_cases:
  "left_is_free h c = (if left (h ! c) = None then Inl AttributeError else Inr False)"
  by (simp add: left_is_free_def attr_expr_is_unary ebind_def)

lemma walk_up_result:
  assumes "walk_up h c = Some r"
  shows "r = Inl AttributeError"
  by (rule walk_up.raw_induct [where P = "\<lambda>_ _ r. r = Inl AttributeError", OF _ assms])
     (auto simp add: attr_expr_is_unary split: option.splits if_splits)

lemma build_loop_Nil: "build_loop [] s = Some (Inr s)"
  by (subst build_loop.simps) simp

lemma build_loop_snoc:
  "build_loop (p @ [x]) s =
     (case add s x of None \<Rightarrow> None | Some (Inl e) \<Rightarrow> Some (Inl e)
      | Some (Inr s') \<Rightarrow> build_loop p s')"
  by (subst build_loop.simps) (auto split: option.splits sum.splits)

lemma map_left_set_right: "map left (set_right h c r) = map left h"
  unfolding set_right_def
  by (cases "c < length h") (auto intro!: nth_equalityI simp add: nth_list_update)

text \<open>
  What \<open>add\<close> does: the branches that would set a left child all
  pass through \<open>expr.is_unary\<close> and fault.
\<close>

lemma walk_up_bind:
  assumes "\<And>e. f (Inl e) = Some (Inl e)"
  shows "Option.bind (walk_up h c) f =
         (case walk_up h c of None \<Rightarrow> None | Some w \<Rightarrow> Some (Inl AttributeError))"
proof (cases "walk_up h c")
  case None
  then show ?thesis by simp
next
  case (Some w)
  with walk_up_result [OF Some] assms show ?thesis by simp
qed

lemma add_eq:
  "add (h, t) v =
     (if root t = None then
        Some (Inr (h @ [node_init v None None None],
                   t\<lparr>root := Some (length h), cur := Some (length h)\<rparr>))
      else case cur t of
        None \<Rightarrow> Some (Inl AttributeError)
      | Some c \<Rightarrow>
          if right (h ! c) = None then
            Some (Inr (set_right (h @ [node_init v (Some c) None None]) c (Some (length h)),
                       if is_symbol v then t\<lparr>cur := Some (length h)\<rparr> else t))
          else if left (h ! c) = None then Some (Inl AttributeError)
          else (case walk_up h (Some c) of None \<Rightarrow> None
                | Some w \<Rightarrow> Some (Inl AttributeError)))"
  by (simp add: add_def Let_def left_is_free_cases walk_up_bind is_func_str_def
      split: option.splits)

lemma add_lefts:
  assumes "add (h, t) v = Some (Inr (h', t'))"
  shows "map left h' = map left h @ [None]"
  using assms
  by (auto simp add: add_eq map_left_set_right node_init_def split: if_splits option.splits)

lemma build_loop_lefts:
  "build_loop p (h, t) = Some (Inr (h', t')) \<Longrightarrow>
   map left h' = map left h @ replicate (length p) None"
proof (induction p arbitrary: h t rule: rev_induct)
  case Nil
  then show ?case by (simp add: build_loop_Nil)
next
  case (snoc x p)
  from snoc.prems obtain h1 t1 where a: "add (h, t) x = Some (Inr (h1, t1))"
    and b: "build_loop p (h1, t1) = Some (Inr (h', t'))"
    by (auto simp add: build_loop_snoc split: option.splits sum.splits)
  from snoc.IH [OF b] add_lefts [OF a] show ?case
    by (simp add: replicate_append_same)
qed

text \<open>The cursor of a tree under construction is a live node.\<close>

lemma add_cur_live:
  assumes "add (h, t) v = Some (Inr (h', t'))" and "cur_live (h, t)"
  shows "cur_live (h', t')"
  using assms
  by (auto simp add: add_eq cur_live_def set_right_def split: if_splits option.splits)

lemma build_loop_cur_live:
  "build_loop p (h, t) = Some (Inr (h', t')) \<Longrightarrow> cur_live (h, t) \<Longrightarrow> cur_live (h', t')"
proof (induction p arbitrary: h t rule: rev_induct)
  case Nil
  then show ?case by (simp add: build_loop_Nil)
next
  case (snoc x p)
  from snoc.prems obtain h1 t1 where a: "add (h, t) x = Some (Inr (h1, t1))"
    and b: "build_loop p (h1, t1) = Some (Inr (h', t'))"
    by (auto simp add: build_loop_snoc split: option.splits sum.splits)
  from snoc.IH [OF b add_cur_live [OF a snoc.prems(2)]] show ?case .
qed

lemma reached_add_faults:
  assumes b: "build_loop p ([], astree_init) = Some (Inr (h, t))"
    and c: "cur t = Some c" and r: "right (h ! c) \<noteq> None"
  shows "add (h, t) v = Some (Inl AttributeError)"
proof -
  have "cur_live ([], astree_init)" by (simp add: cur_live_def astree_init_def)
  from build_loop_cur_live [OF b this] c have live: "c < length h" "root t \<noteq> None"
    by (simp_all add: cur_live_def)
  from build_loop_lefts [OF b] have "map left h = replicate (length p) None" by simp
  then have "map left h ! c = None" using live(1)
    by (metis length_map length_replicate nth_replicate)
  with live(1) have "left (h ! c) = None" by simp
  with c r live(2) show ?thesis by (simp add: add_eq)
qed

lemma build_loop_append:
  "build_loop (p1 @ p2) s =
     (case build_loop p2 s of None \<Rightarrow> None | Some (Inl e) \<Rightarrow> Some (Inl e)
      | Some (Inr s') \<Rightarrow> build_loop p1 s')"
proof (induction p2 arbitrary: s rule: rev_induct)
  case Nil
  then show ?case by (simp add: build_loop_Nil)
next
  case (snoc x p2)
  have "build_loop (p1 @ p2 @ [x]) s = build_loop ((p1 @ p2) @ [x]) s" by simp
  also have "\<dots> = (case add s x of None \<Rightarrow> None | Some (Inl e) \<Rightarrow> Some (Inl e)
      | Some (Inr s') \<Rightarrow> build_loop (p1 @ p2) s')"
    by (rule build_loop_snoc)
  finally show ?case
    by (simp add: snoc.IH build_loop_snoc split: option.splits sum.splits)
qed

lemma build_loop_single:
  "build_loop [x] s =
     (case add s x of None \<Rightarrow> None | Some (Inl e) \<Rightarrow> Some (Inl e)
      | Some (Inr s') \<Rightarrow> Some (Inr s'))"
  using build_loop_snoc [of "[]" x s]
  by (auto simp add: build_loop_Nil split: option.splits sum.splits)

text \<open>While the cursor has no right child, operator symbols are attached down the right spine.\<close>

lemma add_first: "add ([], astree_init) x =
    Some (Inr ([node_init x None None None], \<lparr>root = Some 0, cur = Some 0\<rparr>))"
  by (simp add: add_eq astree_init_def)

lemma open_state_first: "open_state ([node_init x None None None], \<lparr>root = Some 0, cur = Some 0\<rparr>)"
  by (simp add: open_state_def node_init_def)

lemma add_operator_open:
  assumes "open_state s" and "is_symbol x"
  shows "\<exists>s'. add s x = Some (Inr s') \<and> open_state s'"
proof -
  obtain h t where s: "s = (h, t)" by (cases s)
  from assms(1) s obtain c where c: "cur t = Some c" "c < length h" "right (h ! c) = None"
    and r: "root t \<noteq> None"
    by (auto simp add: open_state_def split: option.splits)
  have "add (h, t) x = Some (Inr (set_right (h @ [node_init x (Some c) None None]) c (Some (length h)),
                                 t\<lparr>cur := Some (length h)\<rparr>))"
    using c r assms(2) by (auto simp add: add_eq)
  moreover have "open_state (set_right (h @ [node_init x (Some c) None None]) c (Some (length h)),
                             t\<lparr>cur := Some (length h)\<rparr>)"
    using c r by (simp add: open_state_def set_right_def node_init_def nth_append)
  ultimately show ?thesis using s by blast
qed

lemma build_loop_operators_open:
  "open_state s \<Longrightarrow> list_all is_symbol ops \<Longrightarrow>
   \<exists>s'. build_loop ops s = Some (Inr s') \<and> open_state s'"
proof (induction ops arbitrary: s rule: rev_induct)
  case Nil
  then show ?case by (simp add: build_loop_Nil)
next
  case (snoc x ops)
  from snoc.prems have x: "is_symbol x" and ops: "list_all is_symbol ops" by simp_all
  from add_operator_open [OF snoc.prems(1) x] obtain s1
    where s1: "add s x = Some (Inr s1)" "open_state s1" by blast
  from snoc.IH [OF s1(2) ops] s1(1) show ?case
    by (simp add: build_loop_snoc)
qed

lemma add_operand_closes:
  assumes "open_state s" and "\<not> is_symbol y"
  shows "\<exists>h t c. add s y = Some (Inr (h, t)) \<and> cur t = Some c \<and> right (h ! c) \<noteq> None"
proof -
  obtain h t where s: "s = (h, t)" by (cases s)
  from assms(1) s obtain c where c: "cur t = Some c" "c < length h" "right (h ! c) = None"
    and r: "root t \<noteq> None"
    by (auto simp add: open_state_def split: option.splits)
  have "add (h, t) y = Some (Inr (set_right (h @ [node_init y (Some c) None None]) c (Some (length h)), t))"
    using c r assms(2) by (auto simp add: add_eq)
  moreover have "right (set_right (h @ [node_init y (Some c) None None]) c (Some (length h)) ! c) \<noteq> None"
    using c by (simp add: set_right_def)
  ultimately show ?thesis using s c(1) by blast
qed

lemma build_loop_shape_faults:
  assumes ops: "list_all is_symbol ops" and y: "\<not> is_symbol y"
  shows "build_loop (pre @ [z, y] @ ops @ [x]) ([], astree_init) = Some (Inl AttributeError)"
proof -
  from build_loop_operators_open [OF open_state_first ops] obtain s1
    where s1: "build_loop ops ([node_init x None None None], \<lparr>root = Some 0, cur = Some 0\<rparr>) = Some (Inr s1)"
      "open_state s1" by blast
  from add_operand_closes [OF s1(2) y] obtain h t c
    where a: "add s1 y = Some (Inr (h, t))" "cur t = Some c" "right (h ! c) \<noteq> None" by blast
  have start: "build_loop (ops @ [x]) ([], astree_init) = Some (Inr s1)"
    using s1(1) by (simp add: build_loop_snoc add_first)
  have reach: "build_loop (y # ops @ [x]) ([], astree_init) = Some (Inr (h, t))"
    using build_loop_append [of "[y]" "ops @ [x]" "([], astree_init)"]
    by (simp add: start build_loop_single a(1))
  have z: "add (h, t) z = Some (Inl AttributeError)"
    by (rule reached_add_faults [OF reach a(2) a(3)])
  have "build_loop (z # y # ops @ [x]) ([], astree_init) = Some (Inl AttributeError)"
    using build_loop_append [of "[z]" "y # ops @ [x]" "([], astree_init)"]
    by (simp add: reach build_loop_single z)
  then show ?thesis
    using build_loop_append [of pre "z # y # ops @ [x]" "([], astree_init)"] by simp
qed

text \<open>The construction loop always returns: no reachable state enters the walk to the parent.\<close>

lemma add_spine_state:
  assumes "spine_state s"
  shows "add s v = Some (Inl AttributeError) \<or> (\<exists>s'. add s v = Some (Inr s') \<and> spine_state s')"
proof -
  obtain h t where s: "s = (h, t)" by (cases s)
  from assms s have live: "cur_live (h, t)" and lefts: "list_all (\<lambda>n. left n = None) h"
    by (simp_all add: spine_state_def)
  have nl: "left (h ! c) = None" if "c < length h" for c
    using lefts that by (simp add: list_all_length)
  show ?thesis
  proof (cases "add (h, t) v")
    case None
    with live nl show ?thesis
      by (auto simp add: add_eq cur_live_def split: if_splits option.splits)
  next
    case (Some r)
    show ?thesis
    proof (cases r)
      case (Inl e)
      with Some have "e = AttributeError"
        by (auto simp add: add_eq split: if_splits option.splits)
      with Some Inl s show ?thesis by simp
    next
      case (Inr s')
      obtain h' t' where s': "s' = (h', t')" by (cases s')
      from Some Inr s' have a: "add (h, t) v = Some (Inr (h', t'))" by simp
      from add_lefts [OF a] have "set (map left h') = set (map left h) \<union> {None}"
        by simp
      with lefts have "\<forall>x \<in> set (map left h'). x = None"
        by (auto simp add: list_all_iff)
      then have "list_all (\<lambda>n. left n = None) h'"
        by (simp add: list_all_iff)
      with add_cur_live [OF a live] a s s' show ?thesis
        by (simp add: spine_state_def)
    qed
  qed
qed

lemma build_loop_total: "spine_state s \<Longrightarrow> build_loop p s \<noteq> None"
proof (induction p arbitrary: s rule: rev_induct)
  case Nil
  then show ?case by (simp add: build_loop_Nil)
next
  case (snoc x p)
  from add_spine_state [OF snoc.prems, of x] snoc.IH show ?case
    by (auto simp add: build_loop_snoc)
qed

lemma spine_state_init: "spine_state ([], astree_init)"
  by (simp add: spine_state_def cur_live_def astree_init_def)

text \<open>
  Claim C2, as amended: the right child that matters is that of the cursor, not that of
  the root. Whenever a symbol is to be attached while the right child of the cursor is
  already occupied, \<open>add\<close> (and so \<open>build\<close>) raises \<open>AttributeError\<close>, because the insertion
  consults \<open>expr.is_unary\<close>, which module \<open>expr\<close> does not bind. This holds in every state
  that the construction loop reaches from a new tree; in particular for every symbol list
  that ends (in the order of insertion) with a root, operators, an operand and one more
  symbol, such as the postfix list \<open>a b o\<close> of a binary operator applied to two operands,
  for every expression whose postfix list has this shape, and for \<open>1+2\<close>. Consequently no
  tree the loop returns has a node with a left child, so no operator node ever has both
  children. The loop itself always returns.
\<close>

theorem add_attribute_fault:
  "(\<forall>p h t c v. build_loop p ([], astree_init) = Some (Inr (h, t)) \<longrightarrow> cur t = Some c \<longrightarrow>
       right (h ! c) \<noteq> None \<longrightarrow> add (h, t) v = Some (Inl AttributeError))
   \<and> (\<forall>pre z y ops x. list_all is_symbol ops \<longrightarrow> \<not> is_symbol y \<longrightarrow>
       build_loop (pre @ [z, y] @ ops @ [x]) ([], astree_init) = Some (Inl AttributeError))
   \<and> (\<forall>e pre z y ops x.
       postfix (filter (\<lambda>c. c \<noteq> CHR '' '') e) = Inr (pre @ [z, y] @ ops @ [x]) \<longrightarrow>
       list_all is_symbol ops \<longrightarrow> \<not> is_symbol y \<longrightarrow> build e = Some (Inl AttributeError))
   \<and> build ''1+2'' = Some (Inl AttributeError)
   \<and> (\<forall>p h t. build_loop p ([], astree_init) = Some (Inr (h, t)) \<longrightarrow>
       list_all (\<lambda>n. left n = None) h)
   \<and> (\<forall>p. build_loop p ([], astree_init) \<noteq> None)"
proof (intro conjI allI impI)
  fix p h t c v
  assume "build_loop p ([], astree_init) = Some (Inr (h, t))" "cur t = Some c"
    "right (h ! c) \<noteq> None"
  then show "add (h, t) v = Some (Inl AttributeError)"
    by (rule reached_add_faults)
next
  fix pre z y ops x
  assume "list_all is_symbol ops" "\<not> is_symbol y"
  then show "build_loop (pre @ [z, y] @ ops @ [x]) ([], astree_init) = Some (Inl AttributeError)"
    by (rule build_loop_shape_faults)
next
  fix e pre z y ops x
  assume p: "postfix (filter (\<lambda>c. c \<noteq> CHR '' '') e) = Inr (pre @ [z, y] @ ops @ [x])"
    and ops: "list_all is_symbol ops" and y: "\<not> is_symbol y"
  from build_loop_shape_faults [OF ops y, of pre z x] p
  show "build e = Some (Inl AttributeError)"
    by (simp add: build_def)
next
  show "build ''1+2'' = Some (Inl AttributeError)"
    by code_simp
next
  fix p h t
  assume b: "build_loop p ([], astree_init) = Some (Inr (h, t))"
  from build_loop_lefts [OF b] have "\<forall>x \<in> set (map left h). x = None"
    by simp
  then show "list_all (\<lambda>n. left n = None) h"
    by (simp add: list_all_iff)
next
  fix p
  show "build_loop p ([], astree_init) \<noteq> None"
    by (rule build_loop_total [OF spine_state_init])
qed

theorem add_attribute_fault_witness:
  "build_loop [''1'', ''+''] ([], astree_init) =
     Some (Inr ([\<lparr>sym = ''+'', left = None, parent = None, right = Some 1\<rparr>,
                 \<lparr>sym = ''1'', left = None, parent = Some 0, right = None\<rparr>],
                \<lparr>root = Some 0, cur = Some 0\<rparr>))
   \<and> add ([\<lparr>sym = ''+'', left = None, parent = None, right = Some 1\<rparr>,
            \<lparr>sym = ''1'', left = None, parent = Some 0, right = None\<rparr>],
           \<lparr>root = Some 0, cur = Some 0\<rparr>) ''2'' = Some (Inl AttributeError)
   \<and> list_all is_symbol [''*''] \<and> \<not> is_symbol ''3''
   \<and> build_loop ([''1''] @ [''2'', ''3''] @ [''*''] @ [''+'']) ([], astree_init) =
       Some (Inl AttributeError)
   \<and> postfix (filter (\<lambda>c. c \<noteq> CHR '' '') ''1 + 2 * 3'') =
       Inr ([''1''] @ [''2'', ''3''] @ [''*''] @ [''+''])
   \<and> build ''1 + 2 * 3'' = Some (Inl AttributeError)
   \<and> list_all (\<lambda>n. left n = None)
        [\<lparr>sym = ''+'', left = None, parent = None, right = Some 1\<rparr>,
         \<lparr>sym = ''1'', left = None, parent = Some 0, right = None\<rparr>]"
proof -
  let ?h = "[\<lparr>sym = ''+'', left = None, parent = None, right = Some 1\<rparr>,
             \<lparr>sym = ''1'', left = None, parent = Some 0, right = None\<rparr>]"
  let ?t = "\<lparr>root = Some 0, cur = Some 0\<rparr>"
  have b: "build_loop [''1'', ''+''] ([], astree_init) = Some (Inr (?h, ?t))"
    by code_simp
  have c: "cur ?t = Some 0" and r: "right (?h ! 0) \<noteq> None"
    by simp_all
  have ops: "list_all is_symbol [''*'']" and y: "\<not> is_symbol ''3''"
    by (simp_all add: is_symbol_def basic_opeartors_mapper_keys_def)
  have p: "postfix (filter (\<lambda>c. c \<noteq> CHR '' '') ''1 + 2 * 3'') =
       Inr ([''1''] @ [''2'', ''3''] @ [''*''] @ [''+''])"
    by code_simp
  note fault = add_attribute_fault
  note f1 = fault [THEN conjunct1, rule_format, OF b c r, of "''2''"]
  note f2 = fault [THEN conjunct2, THEN conjunct1, rule_format, OF ops y, of "[''1'']" "''2''" "''+''"]
  note f3 = fault [THEN conjunct2, THEN conjunct2, THEN conjunct1, rule_format, OF p ops y]
  note f5 = fault [THEN conjunct2, THEN conjunct2, THEN conjunct2, THEN conjunct2,
      THEN conjunct1, rule_format, OF b]
  show ?thesis
    by (intro conjI b f1 ops y f2 p f3 f5)
qed

text \<open>
  Claim C2 as stated fails: it speaks of the right child of the root. For \<open>-(-1)\<close> the
  postfix list is \<open>1 - -\<close>. After the two operators the right child of the root is
  occupied (node 1) and the cursor is on node 1; the symbol \<open>1\<close> is then attached as the
  right child of the cursor without a fault, and \<open>build\<close> returns a tree of three nodes.
\<close>

theorem root_right_occupied_add_returns:
  "postfix ''-(-1)'' = Inr [''1'', ''-'', ''-'']
   \<and> build_loop [''-'', ''-''] ([], astree_init) =
       Some (Inr ([\<lparr>sym = ''-'', left = None, parent = None, right = Some 1\<rparr>,
                   \<lparr>sym = ''-'', left = None, parent = Some 0, right = None\<rparr>],
                  \<lparr>root = Some 0, cur = Some 1\<rparr>))
   \<and> right ([\<lparr>sym = ''-'', left = None, parent = None, right = Some 1\<rparr>,
              \<lparr>sym = ''-'', left = None, parent = Some 0, right = None\<rparr>] ! 0) = Some 1
   \<and> add ([\<lparr>sym = ''-'', left = None, parent = None, right = Some 1\<rparr>,
            \<lparr>sym = ''-'', left = None, parent = Some 0, right = None\<rparr>],
           \<lparr>root = Some 0, cur = Some 1\<rparr>) ''1'' =
       Some (Inr ([\<lparr>sym = ''-'', left = None, parent = None, right = Some 1\<rparr>,
                   \<lparr>sym = ''-'', left = None, parent = Some 0, right = Some 2\<rparr>,
                   \<lparr>sym = ''1'', left = None, parent = Some 1, right = None\<rparr>],
                  \<lparr>root = Some 0, cur = Some 1\<rparr>))
   \<and> build ''-(-1)'' =
       Some (Inr ([\<lparr>sym = ''-'', left = None, parent = None, right = Some 1\<rparr>,
                   \<lparr>sym = ''-'', left = None, parent = Some 0, right = Some 2\<rparr>,
                   \<lparr>sym = ''1'', left = None, parent = Some 1, right = None\<rparr>],
                  \<lparr>root = Some 0, cur = Some 1\<rparr>))"
  by code_simp

section \<open>The trees that the construction loop returns\<close>

lemma right_spine_nth:
  "right_spine h \<Longrightarrow> i < length h \<Longrightarrow>
   left (h ! i) = None \<and> right (h ! i) = (if Suc i < length h then Some (Suc i) else None)"
  by (simp add: right_spine_def list_all_iff)

lemma right_spine_extend:
  assumes "right_spine h" and "h \<noteq> []"
  shows "right_spine (set_right (h @ [node_init v p None None]) (length h - 1) (Some (length h)))"
proof -
  let ?h = "set_right (h @ [node_init v p None None]) (length h - 1) (Some (length h))"
  have len: "length ?h = Suc (length h)" by (simp add: set_right_def)
  have "left (?h ! i) = None \<and> right (?h ! i) = (if Suc i < length ?h then Some (Suc i) else None)"
    if i: "i < Suc (length h)" for i
  proof (cases "i = length h")
    case True
    from assms(2) have "length h - 1 \<noteq> length h" by (cases h) simp_all
    with True show ?thesis
      by (simp add: set_right_def node_init_def nth_append nth_list_update_neq)
  next
    case False
    with i have il: "i < length h" by simp
    from right_spine_nth [OF assms(1) il] il assms(2) show ?thesis
      by (cases "i = length h - 1") (auto simp add: set_right_def nth_append nth_list_update)
  qed
  then show ?thesis
    unfolding right_spine_def len by (simp add: list_all_iff)
qed

lemma add_spine_tree:
  assumes a: "add (h, t) v = Some (Inr (h', t'))" and s: "spine_tree (h, t)"
  shows "spine_tree (h', t') \<and> map sym h' = map sym h @ [v]"
proof (cases "h = []")
  case True
  with s have "root t = None" by (simp add: spine_tree_def)
  with a True show ?thesis
    by (auto simp add: add_eq spine_tree_def right_spine_def node_init_def)
next
  case False
  with s have r: "root t = Some 0" and sp: "right_spine h"
    and c: "cur t = Some (length h - 1) \<or> cur t = Some (length h - 2)"
    by (simp_all add: spine_tree_def)
  from a r obtain c' where c': "cur t = Some c'" and free: "right (h ! c') = None"
    and h': "h' = set_right (h @ [node_init v (Some c') None None]) c' (Some (length h))"
    and t': "t' = (if is_symbol v then t\<lparr>cur := Some (length h)\<rparr> else t)"
    by (auto simp add: add_eq split: option.splits if_splits)
  from c c' False have cl: "c' < length h" by auto
  from right_spine_nth [OF sp cl] free cl have last: "c' = length h - 1"
    by (auto split: if_splits)
  have syms: "map sym h' = map sym h @ [v]"
    unfolding h' set_right_def using cl
    by (auto intro!: nth_equalityI simp add: nth_list_update nth_append node_init_def)
  from right_spine_extend [OF sp False, of v "Some c'"] last h'
  have "right_spine h'" by simp
  moreover have "length h' = Suc (length h)" by (simp add: h' set_right_def)
  ultimately show ?thesis
    using syms r c' last t' by (auto simp add: spine_tree_def)
qed

lemma build_loop_spine_tree:
  "build_loop p (h, t) = Some (Inr (h', t')) \<Longrightarrow> spine_tree (h, t) \<Longrightarrow>
   spine_tree (h', t') \<and> map sym h' = map sym h @ rev p"
proof (induction p arbitrary: h t rule: rev_induct)
  case Nil
  then show ?case by (simp add: build_loop_Nil)
next
  case (snoc x p)
  from snoc.prems(1) obtain h1 t1 where a: "add (h, t) x = Some (Inr (h1, t1))"
    and b: "build_loop p (h1, t1) = Some (Inr (h', t'))"
    by (auto simp add: build_loop_snoc split: option.splits sum.splits)
  from add_spine_tree [OF a snoc.prems(2)] snoc.IH [OF b] show ?case by simp
qed

lemma postorder_travel_null: "postorder_travel h None li = Some li"
  by (subst postorder_travel.simps) simp

lemma postorder_travel_spine:
  assumes sp: "right_spine h"
  shows "i < length h \<Longrightarrow>
         postorder_travel h (Some i) li = Some (li @ rev (map sym (drop i h)))"
proof (induction "length h - i" arbitrary: i li)
  case 0
  then show ?case by simp
next
  case (Suc k)
  note nth = right_spine_nth [OF sp Suc.prems]
  have d: "drop i h = h ! i # drop (Suc i) h"
    using Suc.prems by (simp add: Cons_nth_drop_Suc)
  show ?case
  proof (cases "Suc i < length h")
    case True
    from Suc.hyps(2) True have "k = length h - Suc i" by simp
    from Suc.hyps(1) [OF this True]
    have "postorder_travel h (Some (Suc i)) li = Some (li @ rev (map sym (drop (Suc i) h)))" .
    with nth True show ?thesis
      by (subst postorder_travel.simps) (simp add: postorder_travel_null d)
  next
    case False
    with Suc.prems have "drop (Suc i) h = []" by simp
    with nth False show ?thesis
      by (subst postorder_travel.simps) (simp add: postorder_travel_null d)
  qed
qed

lemma spine_tree_init: "spine_tree ([], astree_init)"
  by (simp add: spine_tree_def right_spine_def astree_init_def)

text \<open>Where the construction loop returns a tree, its postorder is the list it was built from.\<close>

lemma postorder_of_built_tree:
  assumes "build_loop p ([], astree_init) = Some (Inr s)"
  shows "postorder s = Some p"
proof -
  obtain h t where s: "s = (h, t)" by (cases s)
  from build_loop_spine_tree [OF assms [unfolded s] spine_tree_init]
  have sp: "spine_tree (h, t)" and syms: "map sym h = rev p" by simp_all
  show ?thesis
  proof (cases "h = []")
    case True
    with sp syms s show ?thesis
      by (simp add: postorder_def spine_tree_def postorder_travel_null)
  next
    case False
    with sp have r: "root t = Some 0" and rs: "right_spine h" by (simp_all add: spine_tree_def)
    from False have "0 < length h" by simp
    from postorder_travel_spine [OF rs this, of "[]"] syms r s show ?thesis
      by (simp add: postorder_def rev_map [symmetric])
  qed
qed

lemma build_postorder_roundtrip:
  assumes "build_postorder e = Some (Inr q)"
  shows "postfix (filter (\<lambda>c. c \<noteq> CHR '' '') e) = Inr q"
proof -
  from assms obtain r where r: "build e = Some r"
    and c: "(case r of Inl err \<Rightarrow> Some (Inl err) | Inr s \<Rightarrow> map_option Inr (postorder s)) = Some (Inr q)"
    by (auto simp add: build_postorder_def bind_eq_Some_conv)
  from c obtain s where s: "r = Inr s" and p: "postorder s = Some q"
    by (cases r) auto
  from r s have b: "build e = Some (Inr s)" by simp
  from b obtain l where l: "postfix (filter (\<lambda>c. c \<noteq> CHR '' '') e) = Inr l"
    and bl: "build_loop l ([], astree_init) = Some (Inr s)"
    by (cases "postfix (filter (\<lambda>c. c \<noteq> CHR '' '') e)") (auto simp add: build_def)
  from postorder_of_built_tree [OF bl] p l show ?thesis by simp
qed

section \<open>Function tokens in the postfix converter\<close>

lemma postfix_step_function:
  "postfix_step ((token_init f)\<lparr>is_func := True\<rparr>) (q, op) = Inr (q, op)"
  by (simp add: postfix_step_def token_init_def)

lemma postfix_step_number:
  "postfix_step ((token_init d)\<lparr>is_num := True\<rparr>) (q, op) = Inr (q @ [d], op)"
  by (simp add: postfix_step_def token_init_def)

lemma postfix_step_identifier:
  "postfix_step ((token_init d)\<lparr>is_dummy := True\<rparr>) (q, op) = Inr (q @ [d], op)"
  by (simp add: postfix_step_def token_init_def)

lemma postfix_loop_skips_functions:
  "postfix_loop (filter (\<lambda>t. \<not> is_function_token t) toks) s = postfix_loop toks s"
proof (induction toks arbitrary: s)
  case Nil
  show ?case by simp
next
  case (Cons t toks)
  show ?case
  proof (cases "is_function_token t")
    case True
    obtain q op where s: "s = (q, op)" by (cases s)
    from True have "postfix_step t s = Inr s"
      unfolding s is_function_token_def using postfix_step_function [of "token.sym t" q op] by simp
    with True Cons.IH show ?thesis by (simp add: ebind_def)
  next
    case False
    with Cons.IH show ?thesis by (simp add: ebind_def split: sum.splits)
  qed
qed

text \<open>
  What the converter does with a function token: it matches no branch, so the token
  adds nothing to the output and leaves the operator stack as it is, whereas the lexeme
  of a number or identifier token is appended to the output.
\<close>

lemma postfix_skips_function_tokens:
  "postfix_step ((token_init f)\<lparr>is_func := True\<rparr>) (q, op) = Inr (q, op)
   \<and> postfix_step ((token_init d)\<lparr>is_num := True\<rparr>) (q, op) = Inr (q @ [d], op)
   \<and> postfix_step ((token_init d)\<lparr>is_dummy := True\<rparr>) (q, op) = Inr (q @ [d], op)
   \<and> postfix_tokens (filter (\<lambda>t. \<not> is_function_token t) toks) = postfix_tokens toks"
  by (simp add: postfix_step_function postfix_step_number postfix_step_identifier
      postfix_tokens_def postfix_loop_skips_functions)

text \<open>
  Claim C4, at the failing input. The claim: the lexeme of every function token is
  appended to the output, so every function name of the input is in the postfix list.
  In \<open>sin(1)\<close> the name \<open>sin\<close> becomes a function token, but the postfix list is \<open>1\<close>
  alone: the name is lost.
\<close>

theorem function_name_dropped:
  "tokenize ''sin(1)'' =
     Inr [(token_init ''sin'')\<lparr>is_func := True\<rparr>, (token_init ''('')\<lparr>is_leftb := True\<rparr>,
          (token_init ''1'')\<lparr>is_num := True\<rparr>, (token_init '')'')\<lparr>is_rightb := True\<rparr>]
   \<and> postfix ''sin(1)'' = Inr [''1'']"
  by code_simp

section \<open>Brackets in the postfix converter\<close>

lemma is_symbol_cases:
  "is_symbol s \<longleftrightarrow> s = ''+'' \<or> s = ''-'' \<or> s = ''*'' \<or> s = ''/'' \<or> s = ''^''"
  by (simp add: is_symbol_def basic_opeartors_mapper_keys_def)

lemma is_symbol_not_bracket: "is_symbol s \<Longrightarrow> s \<noteq> ''(''"
  by (auto simp add: is_symbol_cases)

lemma OPS_get_symbol: "is_symbol s \<Longrightarrow> \<exists>v. OPS_get s = Inr v"
  by (auto simp add: is_symbol_cases OPS_get_def OPS_def)

lemma has_precedence_returns:
  assumes "is_symbol a" and "is_symbol b"
  shows "\<exists>r. has_precedence a b = Inr r"
proof -
  from OPS_get_symbol [OF assms(1)] obtain va where a: "OPS_get a = Inr va" by blast
  from OPS_get_symbol [OF assms(2)] obtain vb where b: "OPS_get b = Inr vb" by blast
  show ?thesis by (auto simp add: has_precedence_def ebind_def a b)
qed

lemma pop_operators_Nil: "pop_operators s q [] = Inr (q, [])"
  by (subst pop_operators.simps) simp

lemma pop_operators_snoc:
  "pop_operators s q (op @ [x]) =
     (if x \<noteq> ''(''
      then ebind (has_precedence x s) (\<lambda>b. if b then pop_operators s (q @ [x]) op else Inr (q, op @ [x]))
      else Inr (q, op @ [x]))"
  by (subst pop_operators.simps) (simp add: ebind_def split: sum.splits)

lemma pop_operators_returns:
  "ops_stack op \<Longrightarrow> is_symbol s \<Longrightarrow>
   \<exists>q' op'. pop_operators s q op = Inr (q', op') \<and> ops_stack op' \<and> depth op' = depth op"
proof (induction op arbitrary: q rule: rev_induct)
  case Nil
  then show ?case by (simp add: pop_operators_Nil)
next
  case (snoc x op)
  from snoc.prems have op: "ops_stack op" and x: "x = ''('' \<or> is_symbol x"
    by (simp_all add: ops_stack_def)
  show ?case
  proof (cases "x = ''(''")
    case True
    with snoc.prems show ?thesis by (simp add: pop_operators_snoc)
  next
    case False
    with x have sx: "is_symbol x" by simp
    from has_precedence_returns [OF sx snoc.prems(2)] obtain r
      where r: "has_precedence x s = Inr r" by blast
    show ?thesis
    proof (cases r)
      case True
      from snoc.IH [OF op snoc.prems(2), of "q @ [x]"] obtain q' op'
        where "pop_operators s (q @ [x]) op = Inr (q', op')" "ops_stack op'" "depth op' = depth op"
        by blast
      with True r False show ?thesis
        by (simp add: pop_operators_snoc ebind_def depth_def)
    next
      case False
      with r \<open>x \<noteq> ''(''\<close> snoc.prems show ?thesis
        by (simp add: pop_operators_snoc ebind_def)
    qed
  qed
qed

lemma pop_to_bracket_Nil: "pop_to_bracket q [] = (q, [])"
  by (subst pop_to_bracket.simps) simp

lemma pop_to_bracket_snoc:
  "pop_to_bracket q (op @ [x]) =
     (if x \<noteq> ''('' then pop_to_bracket (q @ [x]) op else (q, op @ [x]))"
  by (subst pop_to_bracket.simps) simp

lemma pop_to_bracket_result:
  "ops_stack op \<Longrightarrow>
   (depth op = 0 \<and> snd (pop_to_bracket q op) = []) \<or>
   (\<exists>pre. snd (pop_to_bracket q op) = pre @ [''(''] \<and> ops_stack pre \<and> depth op = Suc (depth pre))"
proof (induction op arbitrary: q rule: rev_induct)
  case Nil
  then show ?case by (simp add: pop_to_bracket_Nil depth_def)
next
  case (snoc x op)
  from snoc.prems have op: "ops_stack op" by (simp add: ops_stack_def)
  show ?case
  proof (cases "x = ''(''")
    case True
    with op show ?thesis by (simp add: pop_to_bracket_snoc depth_def)
  next
    case False
    with snoc.IH [OF op, of "q @ [x]"] show ?thesis
      by (simp add: pop_to_bracket_snoc depth_def)
  qed
qed

lemma token_fields:
  "t = u \<Longrightarrow> token.sym t = token.sym u \<and> is_num t = is_num u \<and> is_func t = is_func u \<and>
     is_dummy t = is_dummy u \<and> is_oper t = is_oper u \<and> is_leftb t = is_leftb u \<and>
     is_rightb t = is_rightb u"
  by simp

lemma tokenizer_token_kinds:
  assumes "tokenizer_token t"
  shows "(\<not> is_leftb t \<and> \<not> is_oper t \<and> \<not> is_rightb t) \<or>
         (is_leftb t \<and> token.sym t = ''('') \<or>
         (\<not> is_leftb t \<and> \<not> is_oper t \<and> is_rightb t) \<or>
         (\<not> is_leftb t \<and> is_oper t \<and> is_symbol (token.sym t))"
  using assms unfolding tokenizer_token_def
  by (elim disjE conjE) (drule token_fields, simp add: token_init_def)+

lemma postfix_step_plain:
  assumes "\<not> is_leftb t" "\<not> is_oper t" "\<not> is_rightb t"
  shows "\<exists>q'. postfix_step t (q, op) = Inr (q', op)"
  using assms by (simp add: postfix_step_def Let_def)

lemma postfix_step_open:
  assumes "is_leftb t"
  shows "\<exists>q'. postfix_step t (q, op) = Inr (q', op @ [token.sym t])"
  using assms by (simp add: postfix_step_def Let_def)

lemma postfix_step_close:
  assumes "ops_stack op" and "\<not> is_leftb t" "\<not> is_oper t" "is_rightb t"
  shows "(depth op = 0 \<and> postfix_step t (q, op) = Inl IndexError) \<or>
         (\<exists>q' op'. postfix_step t (q, op) = Inr (q', op')
              \<and> ops_stack op' \<and> depth op = Suc (depth op'))"
proof -
  define q1 where "q1 = (if is_num t \<or> is_dummy t then q @ [token.sym t] else q)"
  obtain q2 op2 where p: "pop_to_bracket q1 op = (q2, op2)" by (cases "pop_to_bracket q1 op")
  from pop_to_bracket_result [OF assms(1), of q1] p assms(2-4)
  show ?thesis
    by (auto simp add: postfix_step_def Let_def q1_def [symmetric])
qed

lemma postfix_step_operator:
  assumes "ops_stack op" and "\<not> is_leftb t" "is_oper t" "is_symbol (token.sym t)"
  shows "\<exists>q' op'. postfix_step t (q, op) = Inr (q', op')
              \<and> ops_stack op' \<and> depth op' = depth op"
proof -
  define q1 where "q1 = (if is_num t \<or> is_dummy t then q @ [token.sym t] else q)"
  from pop_operators_returns [OF assms(1,4), of q1] obtain q2 op2
    where p: "pop_operators (token.sym t) q1 op = Inr (q2, op2)" "ops_stack op2" "depth op2 = depth op"
    by blast
  from assms(4) have nb: "token.sym t \<noteq> ''(''" by (rule is_symbol_not_bracket)
  from p assms nb show ?thesis
    by (auto simp add: postfix_step_def Let_def q1_def [symmetric] ebind_def ops_stack_def depth_def)
qed

lemma postfix_loop_brackets:
  "list_all tokenizer_token toks \<Longrightarrow> ops_stack op \<Longrightarrow>
   (if unmatched_close (depth op) toks then postfix_loop toks (q, op) = Inl IndexError
    else (\<exists>s'. postfix_loop toks (q, op) = Inr s'))"
proof (induction toks arbitrary: q op)
  case Nil
  then show ?case by simp
next
  case (Cons t toks)
  from Cons.prems have t: "tokenizer_token t" and toks: "list_all tokenizer_token toks"
    by simp_all
  note IH = Cons.IH [OF toks]
  from tokenizer_token_kinds [OF t] consider
      (plain) "\<not> is_leftb t" "\<not> is_oper t" "\<not> is_rightb t"
    | (leftb) "is_leftb t" "token.sym t = ''(''"
    | (rightb) "\<not> is_leftb t" "\<not> is_oper t" "is_rightb t"
    | (oper) "\<not> is_leftb t" "is_oper t" "is_symbol (token.sym t)"
    by blast
  then show ?case
  proof cases
    case plain
    from postfix_step_plain [OF plain, of q op] obtain q1
      where step: "postfix_step t (q, op) = Inr (q1, op)" by blast
    from IH [OF Cons.prems(2), of q1] step plain show ?thesis
      by (auto simp add: ebind_def split: if_splits)
  next
    case leftb
    from postfix_step_open [OF leftb(1), of q op] leftb(2) obtain q1
      where step: "postfix_step t (q, op) = Inr (q1, op @ [''(''])" by auto
    have st: "ops_stack (op @ [''(''])" "depth (op @ [''('']) = depth op + 1"
      using Cons.prems(2) by (simp_all add: ops_stack_def depth_def)
    from IH [OF st(1), of q1] step leftb(1) st(2) show ?thesis
      by (auto simp add: ebind_def split: if_splits)
  next
    case rightb
    from postfix_step_close [OF Cons.prems(2) rightb, of q] show ?thesis
    proof (elim disjE conjE exE)
      assume "depth op = 0" "postfix_step t (q, op) = Inl IndexError"
      with rightb show ?thesis by (auto simp add: ebind_def split: if_splits)
    next
      fix q' op'
      assume a: "postfix_step t (q, op) = Inr (q', op')"
        "ops_stack op'" "depth op = Suc (depth op')"
      from IH [OF a(2), of q'] a(1,3) rightb show ?thesis
        by (auto simp add: ebind_def split: if_splits)
    qed
  next
    case oper
    from postfix_step_operator [OF Cons.prems(2) oper, of q] obtain q' op'
      where a: "postfix_step t (q, op) = Inr (q', op')" "ops_stack op'" "depth op' = depth op"
      by blast
    from IH [OF a(2), of q'] a(1,3) oper show ?thesis
      by (auto simp add: ebind_def split: if_splits)
  qed
qed

lemma postfix_tokens_brackets:
  assumes "list_all tokenizer_token toks"
  shows "if unmatched_close 0 toks then postfix_tokens toks = Inl IndexError
         else (\<exists>q. postfix_tokens toks = Inr q)"
  using postfix_loop_brackets [OF assms, of "[]" "[]"]
  by (auto simp add: postfix_tokens_def ebind_def ops_stack_def depth_def split: if_splits)

section \<open>The tokenizer returns\<close>

lemma match_at_positive:
  "list_all (\<lambda>a. a \<noteq> []) r \<Longrightarrow> match_at r s = Some n \<Longrightarrow> 0 < n"
  by (induction r) (auto split: if_splits)

lemma chain_weaken: "chain p ms \<Longrightarrow> p' \<le> p \<Longrightarrow> chain p' ms"
  by (cases ms) auto

lemma finditer_chain:
  "list_all (\<lambda>a. a \<noteq> []) r \<Longrightarrow> chain pos (finditer r pos s)"
proof (induction r pos s rule: finditer.induct)
  case (1 r pos)
  show ?case by simp
next
  case (2 r pos c cs)
  show ?case
  proof (cases "match_at r (c # cs)")
    case None
    with 2 have "chain (pos + 1) (finditer r (pos + 1) cs)" by simp
    then have "chain pos (finditer r (pos + 1) cs)" by (rule chain_weaken) simp
    with None show ?thesis by simp
  next
    case (Some n)
    from match_at_positive [OF "2.prems" Some] have n: "0 < n" .
    with 2 Some have "chain (pos + n) (finditer r (pos + n) (drop (n - 1) cs))" by simp
    with Some n show ?thesis by simp
  qed
qed

lemma chain_lower: "chain p ms \<Longrightarrow> j < length ms \<Longrightarrow> p \<le> fst (ms ! j) \<and> fst (ms ! j) < snd (ms ! j)"
proof (induction ms arbitrary: p j)
  case Nil
  then show ?case by simp
next
  case (Cons m ms)
  show ?case
  proof (cases j)
    case 0
    with Cons.prems show ?thesis by simp
  next
    case (Suc k)
    with Cons.prems have "chain (snd m) ms" "k < length ms" by simp_all
    from Cons.IH [OF this] Cons.prems(1) Suc show ?thesis by simp
  qed
qed

lemma chain_order:
  "chain p ms \<Longrightarrow> i < j \<Longrightarrow> j < length ms \<Longrightarrow> snd (ms ! i) \<le> fst (ms ! j)"
proof (induction ms arbitrary: p i j)
  case Nil
  then show ?case by simp
next
  case (Cons m ms)
  from Cons.prems(2) obtain k where j: "j = Suc k" by (cases j) auto
  with Cons.prems have c: "chain (snd m) ms" and k: "k < length ms" by simp_all
  show ?case
  proof (cases i)
    case 0
    from chain_lower [OF c k] j 0 show ?thesis by simp
  next
    case (Suc l)
    with Cons.prems(2) j have "l < k" by simp
    from Cons.IH [OF c this k] j Suc show ?thesis by simp
  qed
qed

text \<open>At a start of a match the cursor into \<open>ends\<close> is in range.\<close>

lemma cursor_in_range:
  assumes c: "chain 0 ms" and ok: "cursor_ok (map snd ms) index eindex"
    and s: "index \<in> set (map fst ms)"
  shows "eindex < length ms"
proof (rule ccontr)
  assume "\<not> eindex < length ms"
  with ok have e: "eindex = length ms" by (simp add: cursor_ok_def)
  from s obtain j where j: "j < length ms" "fst (ms ! j) = index"
    by (auto simp add: in_set_conv_nth)
  with e ok have le: "snd (ms ! (length ms - 1)) \<le> index"
    by (auto simp add: cursor_ok_def)
  show False
  proof (cases "j = length ms - 1")
    case True
    with chain_lower [OF c j(1)] le j(2) show False by simp
  next
    case False
    with j(1) have lt: "j < length ms - 1" "length ms - 1 < length ms" by simp_all
    from chain_order [OF c lt] chain_lower [OF c lt(2)] chain_lower [OF c j(1)] le j(2)
    show False by simp
  qed
qed

lemma tokenize_loop_returns:
  assumes c: "chain 0 ms"
  shows "starts = map fst ms \<Longrightarrow> ends = map snd ms \<Longrightarrow> cursor_ok ends index eindex \<Longrightarrow>
         \<exists>toks. tokenize_loop e starts ends index eindex result = Inr toks"
proof (induction e starts ends index eindex result rule: tokenize_loop.induct)
  case (1 e starts ends index eindex result)
  note step = tokenize_loop.simps [of e starts ends index eindex result]
  note ok = "1.prems"(3)
  have grow: "cursor_ok ends k eindex" if "index \<le> k" for k
    using ok that by (auto simp add: cursor_ok_def)
  show ?case
  proof (cases "index < length e")
    case False
    then show ?thesis by (simp add: step)
  next
    case inside: True
    show ?thesis
    proof (cases "index \<in> set starts")
      case True
      from cursor_in_range [OF c] ok True "1.prems"(1,2)
      have r: "eindex < length ends" by simp
      then have "cursor_ok ends (ends ! eindex) (eindex + 1)"
        by (simp add: cursor_ok_def)
      from "1.IH"(1) [OF inside True r "1.prems"(1,2) this] inside True r
      show ?thesis by (simp add: step)
    next
      case False
      show ?thesis
      proof (cases "is_digit (e ! index)")
        case True
        from "1.IH"(2) [OF inside False refl True refl "1.prems"(1,2) grow] inside False True
        show ?thesis by (simp add: step Let_def)
      next
        case nd: False
        show ?thesis
        proof (cases "is_letter (e ! index)")
          case True
          from "1.IH"(3) [OF inside False refl nd True refl "1.prems"(1,2) grow] inside False nd True
          show ?thesis by (simp add: step Let_def)
        next
          case nl: False
          show ?thesis
          proof (cases "e ! index = CHR ''(''")
            case True
            from "1.IH"(4) [OF inside False refl nd nl True "1.prems"(1,2) grow] inside False nd nl True
            show ?thesis by (simp add: step Let_def)
          next
            case no: False
            show ?thesis
            proof (cases "e ! index = CHR '')''")
              case True
              from "1.IH"(5) [OF inside False refl nd nl no True "1.prems"(1,2) grow]
                inside False nd nl no True
              show ?thesis by (simp add: step Let_def)
            next
              case nc: False
              show ?thesis
              proof (cases "is_symbol [e ! index]")
                case True
                from "1.IH"(6) [OF inside False refl nd nl no nc True "1.prems"(1,2) grow]
                  inside False nd nl no nc True
                show ?thesis by (simp add: step Let_def)
              next
                case ns: False
                from "1.IH"(7) [OF inside False refl nd nl no nc ns "1.prems"(1,2) grow]
                  inside False nd nl no nc ns
                show ?thesis by (simp add: step Let_def)
              qed
            qed
          qed
        qed
      qed
    qed
  qed
qed

lemma func_regex_nonempty: "list_all (\<lambda>a. a \<noteq> []) func_regex"
  by (simp add: func_regex_def function_mapper_keys_def)

lemma tokenize_returns: "\<exists>toks. tokenize e = Inr toks"
proof -
  have c: "chain 0 (finditer func_regex 0 e)"
    by (rule finditer_chain [OF func_regex_nonempty])
  have "cursor_ok (map snd (finditer func_regex 0 e)) 0 0" by (simp add: cursor_ok_def)
  from tokenize_loop_returns [OF c refl refl this]
  show ?thesis by (simp add: tokenize_def match_regex_def Let_def)
qed

lemma tokenize_loop_skip:
  assumes "index < length e" "index \<notin> set starts" "\<not> is_digit (e ! index)"
    "\<not> is_letter (e ! index)" "e ! index \<noteq> CHR ''(''" "e ! index \<noteq> CHR '')''"
    "\<not> is_symbol [e ! index]"
  shows "tokenize_loop e starts ends index eindex result =
         tokenize_loop e starts ends (index + 1) eindex result"
  using assms by (subst tokenize_loop.simps) (simp add: Let_def)

lemma tokenizer_token_intros:
  "tokenizer_token ((token_init s)\<lparr>is_func := True\<rparr>)"
  "tokenizer_token ((token_init s)\<lparr>is_num := True\<rparr>)"
  "tokenizer_token ((token_init s)\<lparr>is_dummy := True\<rparr>)"
  "tokenizer_token ((token_init ''('')\<lparr>is_leftb := True\<rparr>)"
  "tokenizer_token ((token_init '')'')\<lparr>is_rightb := True\<rparr>)"
  "is_symbol s \<Longrightarrow> tokenizer_token ((token_init s)\<lparr>is_oper := True\<rparr>)"
  by (simp_all add: tokenizer_token_def token_init_def)

lemma tokenize_loop_tokens:
  "list_all tokenizer_token result \<Longrightarrow>
   tokenize_loop e starts ends index eindex result = Inr toks \<Longrightarrow>
   list_all tokenizer_token toks"
proof (induction e starts ends index eindex result rule: tokenize_loop.induct)
  case (1 e starts ends index eindex result)
  note step = tokenize_loop.simps [of e starts ends index eindex result]
  note res = "1.prems"(1)
  note run = "1.prems"(2)
  have ext: "list_all tokenizer_token (result @ [t])" if "tokenizer_token t" for t
    using res that by simp
  show ?case
  proof (cases "index < length e")
    case False
    with run res show ?thesis by (simp add: step)
  next
    case inside: True
    show ?thesis
    proof (cases "index \<in> set starts")
      case True
      show ?thesis
      proof (cases "eindex < length ends")
        case r: True
        from run inside True r
        have "tokenize_loop e starts ends (ends ! eindex) (eindex + 1)
                (result @ [(token_init (slice e index (ends ! eindex)))\<lparr>is_func := True\<rparr>]) = Inr toks"
          by (simp add: step)
        from "1.IH"(1) [OF inside True r ext [OF tokenizer_token_intros(1)] this]
        show ?thesis .
      next
        case False
        with run inside True show ?thesis by (simp add: step)
      qed
    next
      case False
      show ?thesis
      proof (cases "is_digit (e ! index)")
        case True
        from run inside False True
        have "tokenize_loop e starts ends (index + length (takeWhile is_digit (drop index e)) - 1 + 1) eindex
                (result @ [(token_init (takeWhile is_digit (drop index e)))\<lparr>is_num := True\<rparr>]) = Inr toks"
          by (simp add: step Let_def)
        from "1.IH"(2) [OF inside False refl True refl ext [OF tokenizer_token_intros(2)] this]
        show ?thesis .
      next
        case nd: False
        show ?thesis
        proof (cases "is_letter (e ! index)")
          case True
          from run inside False nd True
          have "tokenize_loop e starts ends (index + length (takeWhile is_letter (drop index e)) - 1 + 1) eindex
                  (result @ [(token_init (takeWhile is_letter (drop index e)))\<lparr>is_dummy := True\<rparr>]) = Inr toks"
            by (simp add: step Let_def)
          from "1.IH"(3) [OF inside False refl nd True refl ext [OF tokenizer_token_intros(3)] this]
          show ?thesis .
        next
          case nl: False
          show ?thesis
          proof (cases "e ! index = CHR ''(''")
            case True
            from run inside False nd nl True
            have "tokenize_loop e starts ends (index + 1) eindex
                    (result @ [(token_init [e ! index])\<lparr>is_leftb := True\<rparr>]) = Inr toks"
              by (simp add: step Let_def)
            moreover have "tokenizer_token ((token_init [e ! index])\<lparr>is_leftb := True\<rparr>)"
              using tokenizer_token_intros(4) True by simp
            ultimately show ?thesis
              using "1.IH"(4) [OF inside False refl nd nl True ext] by blast
          next
            case no: False
            show ?thesis
            proof (cases "e ! index = CHR '')''")
              case True
              from run inside False nd nl no True
              have "tokenize_loop e starts ends (index + 1) eindex
                      (result @ [(token_init [e ! index])\<lparr>is_rightb := True\<rparr>]) = Inr toks"
                by (simp add: step Let_def)
              moreover have "tokenizer_token ((token_init [e ! index])\<lparr>is_rightb := True\<rparr>)"
                using tokenizer_token_intros(5) True by simp
              ultimately show ?thesis
                using "1.IH"(5) [OF inside False refl nd nl no True ext] by blast
            next
              case nc: False
              show ?thesis
              proof (cases "is_symbol [e ! index]")
                case True
                from run inside False nd nl no nc True
                have "tokenize_loop e starts ends (index + 1) eindex
                        (result @ [(token_init [e ! index])\<lparr>is_oper := True\<rparr>]) = Inr toks"
                  by (simp add: step Let_def)
                from "1.IH"(6) [OF inside False refl nd nl no nc True
                    ext [OF tokenizer_token_intros(6) [OF True]] this]
                show ?thesis .
              next
                case ns: False
                from run inside False nd nl no nc ns
                have "tokenize_loop e starts ends (index + 1) eindex result = Inr toks"
                  by (simp add: step Let_def)
                from "1.IH"(7) [OF inside False refl nd nl no nc ns res this]
                show ?thesis .
              qed
            qed
          qed
        qed
      qed
    qed
  qed
qed

lemma tokenize_tokens: "tokenize e = Inr toks \<Longrightarrow> list_all tokenizer_token toks"
  unfolding tokenize_def match_regex_def Let_def
  by (simp add: tokenize_loop_tokens [of "[]", simplified])

text \<open>
  Claim C9. \<open>tokenize\<close> returns a token list for every input string, without a fault. In
  its loop, a character that is at no start of a function name and is neither a digit, a
  letter, a bracket nor an operator symbol is passed over: the loop goes on at the next
  index with the same tokens. For example \<open>1,#2\<close> gives the two number tokens.
\<close>

theorem tokenize_never_fails:
  "(\<exists>toks. tokenize e = Inr toks)
   \<and> (\<forall>starts ends index eindex result.
        index < length e \<longrightarrow> index \<notin> set starts \<longrightarrow> \<not> is_digit (e ! index) \<longrightarrow>
        \<not> is_letter (e ! index) \<longrightarrow> e ! index \<noteq> CHR ''('' \<longrightarrow> e ! index \<noteq> CHR '')'' \<longrightarrow>
        \<not> is_symbol [e ! index] \<longrightarrow>
        tokenize_loop e starts ends index eindex result =
        tokenize_loop e starts ends (index + 1) eindex result)
   \<and> tokenize ''1,#2'' = Inr [(token_init ''1'')\<lparr>is_num := True\<rparr>, (token_init ''2'')\<lparr>is_num := True\<rparr>]"
proof (intro conjI allI impI)
  show "\<exists>toks. tokenize e = Inr toks" by (rule tokenize_returns)
next
  fix starts ends index eindex result
  assume "index < length e" "index \<notin> set starts" "\<not> is_digit (e ! index)"
    "\<not> is_letter (e ! index)" "e ! index \<noteq> CHR ''(''" "e ! index \<noteq> CHR '')''"
    "\<not> is_symbol [e ! index]"
  then show "tokenize_loop e starts ends index eindex result =
        tokenize_loop e starts ends (index + 1) eindex result"
    by (rule tokenize_loop_skip)
next
  show "tokenize ''1,#2'' = Inr [(token_init ''1'')\<lparr>is_num := True\<rparr>, (token_init ''2'')\<lparr>is_num := True\<rparr>]"
    by code_simp
qed

theorem tokenize_never_fails_witness:
  "(1::nat) < length ''a,b'' \<and> (1::nat) \<notin> set [] \<and> \<not> is_digit (''a,b'' ! 1) \<and> \<not> is_letter (''a,b'' ! 1)
   \<and> ''a,b'' ! 1 \<noteq> CHR ''('' \<and> ''a,b'' ! 1 \<noteq> CHR '')'' \<and> \<not> is_symbol [''a,b'' ! 1]
   \<and> tokenize_loop ''a,b'' [] [] 1 0 [(token_init ''a'')\<lparr>is_dummy := True\<rparr>] =
       tokenize_loop ''a,b'' [] [] (1 + 1) 0 [(token_init ''a'')\<lparr>is_dummy := True\<rparr>]
   \<and> (\<exists>toks. tokenize ''a,b'' = Inr toks)"
proof -
  have h: "(1::nat) < length ''a,b''" "(1::nat) \<notin> set []" "\<not> is_digit (''a,b'' ! 1)"
    "\<not> is_letter (''a,b'' ! 1)" "''a,b'' ! 1 \<noteq> CHR ''(''" "''a,b'' ! 1 \<noteq> CHR '')''"
    "\<not> is_symbol [''a,b'' ! 1]"
    by (simp_all add: is_digit_def is_letter_def is_symbol_def basic_opeartors_mapper_keys_def)
  note n = tokenize_never_fails [of "''a,b''"]
  from n h have "tokenize_loop ''a,b'' [] [] 1 0 [(token_init ''a'')\<lparr>is_dummy := True\<rparr>] =
       tokenize_loop ''a,b'' [] [] (1 + 1) 0 [(token_init ''a'')\<lparr>is_dummy := True\<rparr>]"
    by blast
  moreover from n have "\<exists>toks. tokenize ''a,b'' = Inr toks" by blast
  ultimately show ?thesis using h by blast
qed

text \<open>
  Claim C3, as amended. When the tokens of the expression have a closing bracket at a
  point where no opening bracket is open, as in \<open>)1(\<close>, \<open>postfix\<close> raises Python's
  \<open>IndexError\<close> (\<open>pop\<close> from the empty operator stack); there is no fault of its own name
  for unbalanced brackets. Otherwise \<open>postfix\<close> returns a list, also when opening brackets
  stay unmatched: for \<open>(1+2\<close> it returns \<open>1 2 + (\<close>.
\<close>

theorem unbalanced_brackets:
  "(\<forall>e toks. tokenize e = Inr toks \<longrightarrow> unmatched_close 0 toks \<longrightarrow> postfix e = Inl IndexError)
   \<and> (\<forall>e toks. tokenize e = Inr toks \<longrightarrow> \<not> unmatched_close 0 toks \<longrightarrow> (\<exists>q. postfix e = Inr q))
   \<and> postfix '')1('' = Inl IndexError
   \<and> postfix ''(1+2'' = Inr [''1'', ''2'', ''+'', ''('']"
proof (intro conjI allI impI)
  fix e toks
  assume t: "tokenize e = Inr toks" and u: "unmatched_close 0 toks"
  from postfix_tokens_brackets [OF tokenize_tokens [OF t]] u t
  show "postfix e = Inl IndexError" by (simp add: postfix_def ebind_def)
next
  fix e toks
  assume t: "tokenize e = Inr toks" and u: "\<not> unmatched_close 0 toks"
  from postfix_tokens_brackets [OF tokenize_tokens [OF t]] u t
  show "\<exists>q. postfix e = Inr q" by (simp add: postfix_def ebind_def)
next
  show "postfix '')1('' = Inl IndexError" by code_simp
next
  show "postfix ''(1+2'' = Inr [''1'', ''2'', ''+'', ''('']" by code_simp
qed

theorem unbalanced_brackets_witness:
  "tokenize ''1)'' = Inr [(token_init ''1'')\<lparr>is_num := True\<rparr>, (token_init '')'')\<lparr>is_rightb := True\<rparr>]
   \<and> unmatched_close 0 [(token_init ''1'')\<lparr>is_num := True\<rparr>, (token_init '')'')\<lparr>is_rightb := True\<rparr>]
   \<and> postfix ''1)'' = Inl IndexError
   \<and> tokenize ''((2'' = Inr [(token_init ''('')\<lparr>is_leftb := True\<rparr>, (token_init ''('')\<lparr>is_leftb := True\<rparr>,
                             (token_init ''2'')\<lparr>is_num := True\<rparr>]
   \<and> \<not> unmatched_close 0 [(token_init ''('')\<lparr>is_leftb := True\<rparr>, (token_init ''('')\<lparr>is_leftb := True\<rparr>,
                             (token_init ''2'')\<lparr>is_num := True\<rparr>]
   \<and> (\<exists>q. postfix ''((2'' = Inr q)"
proof -
  let ?a = "[(token_init ''1'')\<lparr>is_num := True\<rparr>, (token_init '')'')\<lparr>is_rightb := True\<rparr>]"
  let ?b = "[(token_init ''('')\<lparr>is_leftb := True\<rparr>, (token_init ''('')\<lparr>is_leftb := True\<rparr>,
             (token_init ''2'')\<lparr>is_num := True\<rparr>]"
  have ta: "tokenize ''1)'' = Inr ?a" by code_simp
  have ua: "unmatched_close 0 ?a" by (simp add: token_init_def)
  have tb: "tokenize ''((2'' = Inr ?b" by code_simp
  have ub: "\<not> unmatched_close 0 ?b" by (simp add: token_init_def)
  note u = unbalanced_brackets
  from u ta ua have "postfix ''1)'' = Inl IndexError" by blast
  moreover from u tb ub have "\<exists>q. postfix ''((2'' = Inr q" by blast
  ultimately show ?thesis using ta ua tb ub by blast
qed

text \<open>
  Claim C3 as stated fails: for the excess opening bracket of \<open>(1+2\<close> the converter raises
  no fault and returns a list that holds the bracket.
\<close>

theorem excess_open_bracket_completes:
  "postfix ''(1+2'' = Inr [''1'', ''2'', ''+'', ''('']"
  by code_simp


end
